theory Spec2Isabelle
  imports Main "HOL-Library.Sublist"
begin

section \<open>Text\<close>

text \<open>
  A Python \<^verbatim>\<open>str\<close> is a sequence of code points. The model works on \<^typ>\<open>string\<close>,
  every \<^typ>\<open>char\<close> standing for one code point below 256, so that lengths, indices
  and slices count what Python counts. The character classes below are the ones
  Python 3 uses for \<^verbatim>\<open>str\<close> on that range: \<^verbatim>\<open>\s\<close> and \<^verbatim>\<open>str.strip\<close> share
  \<^verbatim>\<open>str.isspace\<close>, \<^verbatim>\<open>\d\<close> is the decimal digits, \<^verbatim>\<open>\w\<close> is the alphanumerics
  and the underscore.
\<close>

definition code :: "char \<Rightarrow> nat" where
  "code c = of_char c"

definition is_space :: "char \<Rightarrow> bool" where
  "is_space c = (let n = code c in
     (9 \<le> n \<and> n \<le> 13) \<or> (28 \<le> n \<and> n \<le> 32) \<or> n = 133 \<or> n = 160)"

definition is_digit :: "char \<Rightarrow> bool" where
  "is_digit c = (let n = code c in 48 \<le> n \<and> n \<le> 57)"

definition is_word :: "char \<Rightarrow> bool" where
  "is_word c = (let n = code c in
     (48 \<le> n \<and> n \<le> 57) \<or> (65 \<le> n \<and> n \<le> 90) \<or> n = 95 \<or> (97 \<le> n \<and> n \<le> 122)
     \<or> n = 170 \<or> n = 178 \<or> n = 179 \<or> n = 181 \<or> n = 185 \<or> n = 186
     \<or> (188 \<le> n \<and> n \<le> 190) \<or> (192 \<le> n \<and> n \<le> 214) \<or> (216 \<le> n \<and> n \<le> 246)
     \<or> (248 \<le> n \<and> n \<le> 255))"

definition lower_char :: "char \<Rightarrow> char" where
  "lower_char c = (let n = code c in
     if (65 \<le> n \<and> n \<le> 90) \<or> (192 \<le> n \<and> n \<le> 214) \<or> (216 \<le> n \<and> n \<le> 222)
     then char_of (n + 32) else c)"

text \<open>\<^verbatim>\<open>s.lower()\<close>\<close>

definition lower :: "string \<Rightarrow> string" where
  "lower s = map lower_char s"

text \<open>\<^verbatim>\<open>re.sub(r"\s+", " ", s)\<close>: every maximal run of whitespace becomes one space.
  The flag says whether the previous character was whitespace.\<close>

primrec collapse_ws :: "bool \<Rightarrow> string \<Rightarrow> string" where
  "collapse_ws b [] = []"
| "collapse_ws b (c # cs) =
     (if is_space c then (if b then collapse_ws True cs else CHR '' '' # collapse_ws True cs)
      else c # collapse_ws False cs)"

text \<open>\<^verbatim>\<open>s.strip()\<close>\<close>

definition strip :: "string \<Rightarrow> string" where
  "strip s = rev (dropWhile is_space (rev (dropWhile is_space s)))"

text \<open>
  \<^verbatim>\<open>
  def clean(s):
      if s is None:
          return None
      s = re.sub(r"\s+", " ", str(s)).strip()
      return s if s else None
  \<close>
\<close>

definition clean :: "string option \<Rightarrow> string option" where
  "clean s = (case s of None \<Rightarrow> None
     | Some t \<Rightarrow> (let t' = strip (collapse_ws False t) in if t' = [] then None else Some t'))"

text \<open>\<^verbatim>\<open>k in t\<close> on strings: \<open>k\<close> occurs in \<open>t\<close> as a contiguous block.\<close>

fun contains :: "string \<Rightarrow> string \<Rightarrow> bool" where
  "contains k [] = (k = [])"
| "contains k (x # xs) = (prefix k (x # xs) \<or> contains k xs)"

text \<open>\<^verbatim>\<open>s[i:j]\<close> with Python's treatment of negative and out-of-range indices.\<close>

definition slice_index :: "nat \<Rightarrow> int \<Rightarrow> nat" where
  "slice_index n k = (if k < 0 then nat (max 0 (k + int n)) else min n (nat k))"

definition py_slice :: "'a list \<Rightarrow> int \<Rightarrow> int \<Rightarrow> 'a list" where
  "py_slice s i j = (let a = slice_index (length s) i; b = slice_index (length s) j
     in take (b - a) (drop a s))"

text \<open>\<^verbatim>\<open>sep.join(xs)\<close>\<close>

fun join :: "string \<Rightarrow> string list \<Rightarrow> string" where
  "join sep [] = []"
| "join sep [x] = x"
| "join sep (x # y # ys) = x @ sep @ join sep (y # ys)"

section \<open>Regular expressions\<close>

text \<open>
  The patterns of the program use literals, the classes \<^verbatim>\<open>\d\<close>, \<^verbatim>\<open>\s\<close> and
  bracket ranges, the word boundary \<^verbatim>\<open>\b\<close>, sequence, ordered alternation, the greedy
  option \<^verbatim>\<open>?\<close>, and the greedy quantifiers \<^verbatim>\<open>*\<close>, \<^verbatim>\<open>+\<close>, \<^verbatim>\<open>{m,n}\<close> on single
  characters only. The syntax below covers exactly that.
\<close>

datatype atom =
    Lit char
  | Digit
  | Space
  | Cls "(char \<times> char) list"

datatype rx =
    Eps
  | Atom atom
  | Str string
  | WordB
  | Seq rx rx
  | Alt rx rx
  | Opt rx
  | Star atom
  | Plus atom
  | Rep nat nat atom

text \<open>A sequence of more than two parts.\<close>

fun cat :: "rx list \<Rightarrow> rx" where
  "cat [] = Eps"
| "cat [r] = r"
| "cat (r # rs) = Seq r (cat rs)"

text \<open>Comparison of a pattern character with a text character; \<open>ic\<close> is
  \<^verbatim>\<open>re.IGNORECASE\<close>.\<close>

definition char_eq :: "bool \<Rightarrow> char \<Rightarrow> char \<Rightarrow> bool" where
  "char_eq ic c x = (if ic then lower_char c = lower_char x else c = x)"

definition in_ranges :: "(char \<times> char) list \<Rightarrow> char \<Rightarrow> bool" where
  "in_ranges rs x = list_ex (\<lambda>r. code (fst r) \<le> code x \<and> code x \<le> code (snd r)) rs"

text \<open>No pattern of the program combines a bracket class with \<^verbatim>\<open>re.IGNORECASE\<close>, so
  the flag is not consulted there.\<close>

fun atom_ok :: "bool \<Rightarrow> atom \<Rightarrow> char \<Rightarrow> bool" where
  "atom_ok ic (Lit c) x = char_eq ic c x"
| "atom_ok ic Digit x = is_digit x"
| "atom_ok ic Space x = is_space x"
| "atom_ok ic (Cls rs) x = in_ranges rs x"

text \<open>
  A cursor is a place in the text: the character before it, if any (which \<^verbatim>\<open>\b\<close>
  looks at), and the text from there on.
\<close>

type_synonym cursor = "char option \<times> string"

definition at_boundary :: "cursor \<Rightarrow> bool" where
  "at_boundary st =
     ((case fst st of None \<Rightarrow> False | Some c \<Rightarrow> is_word c)
      \<noteq> (case snd st of [] \<Rightarrow> False | x # _ \<Rightarrow> is_word x))"

fun match_str :: "bool \<Rightarrow> string \<Rightarrow> cursor \<Rightarrow> cursor list" where
  "match_str ic [] st = [st]"
| "match_str ic (c # cs) (p, []) = []"
| "match_str ic (c # cs) (p, x # xs) =
     (if char_eq ic c x then match_str ic cs (Some x, xs) else [])"

text \<open>
  Greedy repetition of a one-character test, at least \<open>m\<close> and at most \<open>n\<close> times:
  the cursors where it can stop, the longest run first, as backtracking visits them.
\<close>

fun rep :: "(char \<Rightarrow> bool) \<Rightarrow> nat \<Rightarrow> nat \<Rightarrow> cursor \<Rightarrow> cursor list" where
  "rep P m 0 st = (if m = 0 then [st] else [])"
| "rep P m (Suc n) (p, []) = (if m = 0 then [(p, [])] else [])"
| "rep P m (Suc n) (p, x # xs) =
     (if P x then rep P (m - 1) n (Some x, xs) else []) @ (if m = 0 then [(p, x # xs)] else [])"

text \<open>The same without an upper bound.\<close>

fun rep_many :: "(char \<Rightarrow> bool) \<Rightarrow> nat \<Rightarrow> cursor \<Rightarrow> cursor list" where
  "rep_many P m (p, []) = (if m = 0 then [(p, [])] else [])"
| "rep_many P m (p, x # xs) =
     (if P x then rep_many P (m - 1) (Some x, xs) else []) @ (if m = 0 then [(p, x # xs)] else [])"

text \<open>
  \<open>bt ic r st\<close> lists the cursors at which a match of \<open>r\<close> that begins at \<open>st\<close> can
  end, in the order in which Python's backtracking matcher tries them: the head of the
  list is where the match found at \<open>st\<close> ends, and the empty list means no match there.
\<close>

primrec bt :: "bool \<Rightarrow> rx \<Rightarrow> cursor \<Rightarrow> cursor list" where
  "bt ic Eps st = [st]"
| "bt ic (Atom a) st = rep (atom_ok ic a) 1 1 st"
| "bt ic (Str s) st = match_str ic s st"
| "bt ic WordB st = (if at_boundary st then [st] else [])"
| "bt ic (Seq a b) st = concat (map (bt ic b) (bt ic a st))"
| "bt ic (Alt a b) st = bt ic a st @ bt ic b st"
| "bt ic (Opt a) st = bt ic a st @ [st]"
| "bt ic (Star a) st = rep_many (atom_ok ic a) 0 st"
| "bt ic (Plus a) st = rep_many (atom_ok ic a) 1 st"
| "bt ic (Rep m n a) st = rep (atom_ok ic a) m n st"

text \<open>
  \<^verbatim>\<open>re.finditer(pat, text)\<close>: the non-overlapping matches from left to right, each as
  \<^verbatim>\<open>(m.start(), m.end())\<close>. \<open>pos\<close> is the index of the cursor, \<open>skip\<close> the index where
  the previous match ended. None of the patterns of the program matches the empty
  string, so Python's special treatment of empty matches is not modelled.
\<close>

fun scan :: "bool \<Rightarrow> rx \<Rightarrow> nat \<Rightarrow> char option \<Rightarrow> nat \<Rightarrow> string \<Rightarrow> (nat \<times> nat) list" where
  "scan ic r pos p skip [] =
     (if pos < skip then [] else (case bt ic r (p, []) of [] \<Rightarrow> [] | _ # _ \<Rightarrow> [(pos, pos)]))"
| "scan ic r pos p skip (x # xs) =
     (if pos < skip then scan ic r (Suc pos) (Some x) skip xs
      else (case bt ic r (p, x # xs) of
              [] \<Rightarrow> scan ic r (Suc pos) (Some x) skip xs
            | st # _ \<Rightarrow>
                (let e = pos + (length (x # xs) - length (snd st))
                 in (pos, e) # scan ic r (Suc pos) (Some x) e xs)))"

definition finditer :: "bool \<Rightarrow> rx \<Rightarrow> string \<Rightarrow> (nat \<times> nat) list" where
  "finditer ic r text = scan ic r 0 None 0 text"

section \<open>The metric miner\<close>

text \<open>\<^verbatim>\<open>\d+(\.\d+)?\<close>\<close>

definition number :: rx where
  "number = Seq (Plus Digit) (Opt (Seq (Atom (Lit CHR ''.'')) (Plus Digit)))"

text \<open>
  \<^verbatim>\<open>
  PERCENT_PATTERNS = [
      r"\b\d+(\.\d+)?\s*%",
      r"\b\d+(\.\d+)?\s*(percent|percentage)\b",
      r"\b\d+(\.\d+)?\s*(percentage points|pp)\b",
  ]
  TIME_PATTERNS = [
      r"\b\d+(\.\d+)?\s*(hours?|hrs?)\b",
      r"\b\d+(\.\d+)?\s*(minutes?|mins?)\b",
  ]
  \<close>
\<close>

definition PERCENT_PATTERNS :: "rx list" where
  "PERCENT_PATTERNS =
    [cat [WordB, number, Star Space, Atom (Lit CHR ''%'')],
     cat [WordB, number, Star Space, Alt (Str ''percent'') (Str ''percentage''), WordB],
     cat [WordB, number, Star Space, Alt (Str ''percentage points'') (Str ''pp''), WordB]]"

definition TIME_PATTERNS :: "rx list" where
  "TIME_PATTERNS =
    [cat [WordB, number, Star Space,
          Alt (Seq (Str ''hour'') (Opt (Atom (Lit CHR ''s''))))
              (Seq (Str ''hr'') (Opt (Atom (Lit CHR ''s'')))), WordB],
     cat [WordB, number, Star Space,
          Alt (Seq (Str ''minute'') (Opt (Atom (Lit CHR ''s''))))
              (Seq (Str ''min'') (Opt (Atom (Lit CHR ''s'')))), WordB]]"

definition CHANGE_KEYWORDS :: "string list" where
  "CHANGE_KEYWORDS =
    [''increase'', ''increased'', ''increases'', ''improve'', ''improved'', ''improves'',
     ''improvement'', ''decrease'', ''decreased'', ''reduces'', ''reduced'', ''reduction'',
     ''saved'', ''save'', ''saving'', ''cut'', ''cuts'', ''cutting'',
     ''faster'', ''slower'', ''less time'', ''more time'', ''time saved'',
     ''documentation'', ''burden'', ''workload'', ''productivity'', ''efficient'',
     ''efficiency'']"

text \<open>
  \<^verbatim>\<open>
  def snippet_has_change_context(snippet: str) -> bool:
      t = (snippet or "").lower()
      return any(k in t for k in CHANGE_KEYWORDS)
  \<close>
\<close>

definition snippet_has_change_context :: "string option \<Rightarrow> bool" where
  "snippet_has_change_context snippet =
     (let t = lower (case snippet of None \<Rightarrow> [] | Some s \<Rightarrow> s)
      in list_ex (\<lambda>k. contains k t) CHANGE_KEYWORDS)"

datatype mtype = Percent | Time

record hit =
  metric_type :: mtype
  metric_value :: string
  snippet :: string

text \<open>
  The body of the two inner loops of \<^verbatim>\<open>extract_percent_and_time_snippets\<close>, for one
  match \<open>m\<close>: the hits after the conditional \<^verbatim>\<open>hits.append\<close>.
  \<^verbatim>\<open>
  start = max(0, m.start() - window)
  end = min(len(text), m.end() + window)
  snippet = clean(text[start:end])
  if snippet and snippet_has_change_context(snippet):
      hits.append({"metric_type": ..., "value": m.group(0), "snippet": snippet})
  \<close>
\<close>

definition visit :: "mtype \<Rightarrow> string \<Rightarrow> int \<Rightarrow> nat \<times> nat \<Rightarrow> hit list \<Rightarrow> hit list" where
  "visit ty text window m hits =
     (let start = max 0 (int (fst m) - window);
          end = min (int (length text)) (int (snd m) + window);
          snip = clean (Some (py_slice text start end))
      in case snip of
           None \<Rightarrow> hits
         | Some s \<Rightarrow>
             if snippet_has_change_context (Some s)
             then hits @ [\<lparr>metric_type = ty,
                           metric_value = py_slice text (int (fst m)) (int (snd m)),
                           snippet = s\<rparr>]
             else hits)"

text \<open>
  The loop over the matches of one pattern. \<open>Inl hits\<close> is \<^verbatim>\<open>return hits\<close> from inside
  the loop; \<open>Inr hits\<close> is the loop running to its end.
\<close>

fun match_loop ::
  "mtype \<Rightarrow> string \<Rightarrow> int \<Rightarrow> int \<Rightarrow> (nat \<times> nat) list \<Rightarrow> hit list \<Rightarrow> hit list + hit list" where
  "match_loop ty text window max_hits [] hits = Inr hits"
| "match_loop ty text window max_hits (m # ms) hits =
     (let hits' = visit ty text window m hits
      in if max_hits \<le> int (length hits') then Inl hits'
         else match_loop ty text window max_hits ms hits')"

text \<open>The loop over the patterns of one family.\<close>

fun pattern_loop ::
  "mtype \<Rightarrow> string \<Rightarrow> int \<Rightarrow> int \<Rightarrow> rx list \<Rightarrow> hit list \<Rightarrow> hit list + hit list" where
  "pattern_loop ty text window max_hits [] hits = Inr hits"
| "pattern_loop ty text window max_hits (pat # pats) hits =
     (case match_loop ty text window max_hits (finditer True pat text) hits of
        Inl r \<Rightarrow> Inl r
      | Inr hits' \<Rightarrow> pattern_loop ty text window max_hits pats hits')"

text \<open>\<^verbatim>\<open>def extract_percent_and_time_snippets(text, window=90, max_hits=80)\<close>\<close>

definition extract_percent_and_time_snippets :: "string \<Rightarrow> int \<Rightarrow> int \<Rightarrow> hit list" where
  "extract_percent_and_time_snippets text window max_hits =
     (if text = [] then []
      else case pattern_loop Percent text window max_hits PERCENT_PATTERNS [] of
             Inl r \<Rightarrow> r
           | Inr hits \<Rightarrow>
               (case pattern_loop Time text window max_hits TIME_PATTERNS hits of
                  Inl r \<Rightarrow> r
                | Inr hits' \<Rightarrow> hits'))"

section \<open>Pages and article records\<close>

text \<open>
  The HTML parser is a library. A parsed page is modelled by what it answers to the
  queries the program makes: \<^verbatim>\<open>soup.select_one(sel)\<close>, \<^verbatim>\<open>soup.find("meta", attrs=...)\<close>,
  the pair \<^verbatim>\<open>(author_name, date_published)\<close> that \<^verbatim>\<open>parse_json_ld_for_article\<close> reads
  from the first article-like JSON-LD object (if there is one), and
  \<^verbatim>\<open>soup.get_text("\n", strip=True)\<close>. An element is modelled by its
  \<^verbatim>\<open>get_text(" ", strip=True)\<close>, its \<^verbatim>\<open>get("content")\<close> and the
  \<^verbatim>\<open>get_text(" ", strip=True)\<close> of each element of \<^verbatim>\<open>select("p")\<close>.
\<close>

datatype element = Element (get_text: string) (content: "string option") (select_p: "string list")

datatype meta_key = Name string | Prop string

record soup =
  select_one :: "string \<Rightarrow> element option"
  find_meta :: "meta_key \<Rightarrow> element option"
  json_ld :: "(string option \<times> string option) option"
  page_text :: string

record article =
  url :: string
  site :: string
  title :: "string option"
  author :: "string option"
  published_date :: "string option"
  description :: "string option"
  body :: "string option"
  error :: "string option"

text \<open>Python's truth value of an optional string, and \<^verbatim>\<open>a or b\<close>.\<close>

definition truthy :: "string option \<Rightarrow> bool" where
  "truthy x = (case x of None \<Rightarrow> False | Some s \<Rightarrow> s \<noteq> [])"

definition por :: "string option \<Rightarrow> string option \<Rightarrow> string option" where
  "por a b = (if truthy a then a else b)"

text \<open>
  \<^verbatim>\<open>
  def meta_content(soup, *, name=None, prop=None):
      tag = soup.find("meta", attrs={"name": name}) if name else soup.find("meta", attrs={"property": prop})
      return clean(tag.get("content")) if tag and tag.get("content") else None
  \<close>
\<close>

definition meta_content :: "soup \<Rightarrow> meta_key \<Rightarrow> string option" where
  "meta_content s k =
     (case find_meta s k of
        None \<Rightarrow> None
      | Some tag \<Rightarrow> if truthy (content tag) then clean (content tag) else None)"

text \<open>
  \<^verbatim>\<open>
  def first_text(soup, selectors):
      for sel in selectors:
          el = soup.select_one(sel)
          if el:
              return clean(el.get_text(" ", strip=True))
      return None
  \<close>
\<close>

fun first_text :: "soup \<Rightarrow> string list \<Rightarrow> string option" where
  "first_text s [] = None"
| "first_text s (sel # sels) =
     (case select_one s sel of
        Some el \<Rightarrow> clean (Some (get_text el))
      | None \<Rightarrow> first_text s sels)"

text \<open>The return values of \<^verbatim>\<open>parse_json_ld_for_article\<close>:
  \<^verbatim>\<open>return clean(author_name), clean(date_published)\<close>, or \<^verbatim>\<open>return None, None\<close>.\<close>

definition parse_json_ld_for_article :: "soup \<Rightarrow> string option \<times> string option" where
  "parse_json_ld_for_article s =
     (case json_ld s of None \<Rightarrow> (None, None) | Some (a, d) \<Rightarrow> (clean a, clean d))"

text \<open>\<^verbatim>\<open>re.search(pat, text)\<close>, as \<^verbatim>\<open>(m.start(), m.end())\<close>.\<close>

definition re_search :: "bool \<Rightarrow> rx \<Rightarrow> string \<Rightarrow> (nat \<times> nat) option" where
  "re_search ic r text = (case finditer ic r text of [] \<Rightarrow> None | m # _ \<Rightarrow> Some m)"

text \<open>\<^verbatim>\<open>r"\bvia getty\b|\b/getty\b"\<close>\<close>

definition photo_credit :: rx where
  "photo_credit = Alt (cat [WordB, Str ''via getty'', WordB]) (cat [WordB, Str ''/getty'', WordB])"

definition containers :: "string list" where
  "containers = [''article'', ''main article'', ''main'', ''.article-body'',
     ''.article-content'', ''.entry-content'', ''#article-body'']"

text \<open>
  \<^verbatim>\<open>
  container = None
  for sel in containers:
      container = soup.select_one(sel)
      if container:
          break
  \<close>
\<close>

fun find_container :: "soup \<Rightarrow> string list \<Rightarrow> element option" where
  "find_container s [] = None"
| "find_container s (sel # sels) =
     (case select_one s sel of Some c \<Rightarrow> Some c | None \<Rightarrow> find_container s sels)"

text \<open>
  \<^verbatim>\<open>
  texts = []
  for p in ps:
      t = clean(p.get_text(" ", strip=True))
      if not t:
          continue
      if t.lower() in {"advertisement", "subscribe", "sign up"}:
          continue
      texts.append(t)
  \<close>
\<close>

fun retained :: "string list \<Rightarrow> string list \<Rightarrow> string list" where
  "retained [] texts = texts"
| "retained (p # ps) texts =
     (case clean (Some p) of
        None \<Rightarrow> retained ps texts
      | Some t \<Rightarrow>
          if lower t \<in> set [''advertisement'', ''subscribe'', ''sign up'']
          then retained ps texts
          else retained ps (texts @ [t]))"

definition blank_line :: string where
  "blank_line = [CHR 0x0A, CHR 0x0A]"

text \<open>
  \<^verbatim>\<open>
  if not container:
      return None
  ps = container.select("p")
  ...
  if not texts:
      return clean(container.get_text(" ", strip=True))
  if len(texts) > 1 and re.search(r"\bvia getty\b|\b/getty\b", texts[0].lower()):
      texts = texts[1:]
  return "\n\n".join(texts)
  \<close>
\<close>

definition extract_body_generic :: "soup \<Rightarrow> string option" where
  "extract_body_generic s =
     (case find_container s containers of
        None \<Rightarrow> None
      | Some container \<Rightarrow>
          (case retained (select_p container) [] of
             [] \<Rightarrow> clean (Some (get_text container))
           | t # ts \<Rightarrow>
               if 1 < length (t # ts) \<and> re_search False photo_credit (lower t) \<noteq> None
               then Some (join blank_line ts)
               else Some (join blank_line (t # ts))))"

text \<open>
  \<^verbatim>\<open>r"Published:\s*([0-9]{1,2}\s+[A-Za-z]{3}\s+[0-9]{4})"\<close>, as the part before the
  group and the group.
\<close>

definition date_prefix :: rx where
  "date_prefix = Seq (Str ''Published:'') (Star Space)"

definition date_group :: rx where
  "date_group =
     cat [Rep 1 2 (Cls [(CHR ''0'', CHR ''9'')]), Plus Space,
          Rep 3 3 (Cls [(CHR ''A'', CHR ''Z''), (CHR ''a'', CHR ''z'')]), Plus Space,
          Rep 4 4 (Cls [(CHR ''0'', CHR ''9'')])]"

text \<open>
  \<^verbatim>\<open>m = re.search(pat, text)\<close> followed by \<^verbatim>\<open>m.group(1)\<close>, for a pattern that is a
  prefix followed by one group: at each start from left to right, the ways to match the
  prefix are tried in backtracking order, and the first from which the group matches
  gives the group's text. \<open>None\<close> means that \<^verbatim>\<open>m\<close> is \<^verbatim>\<open>None\<close>.
\<close>

fun first_group :: "bool \<Rightarrow> rx \<Rightarrow> cursor list \<Rightarrow> string option" where
  "first_group ic g [] = None"
| "first_group ic g (st # sts) =
     (case bt ic g st of
        [] \<Rightarrow> first_group ic g sts
      | st' # _ \<Rightarrow> Some (take (length (snd st) - length (snd st')) (snd st)))"

fun search_group :: "bool \<Rightarrow> rx \<Rightarrow> rx \<Rightarrow> char option \<Rightarrow> string \<Rightarrow> string option" where
  "search_group ic pre g p [] = first_group ic g (bt ic pre (p, []))"
| "search_group ic pre g p (x # xs) =
     (case first_group ic g (bt ic pre (p, x # xs)) of
        Some d \<Rightarrow> Some d
      | None \<Rightarrow> search_group ic pre g (Some x) xs)"

text \<open>
  The resolution of \<^verbatim>\<open>published\<close> in \<^verbatim>\<open>parse_page_generic\<close>:
  \<^verbatim>\<open>
  published = (
      date_ld
      or meta_content(soup, prop="article:published_time")
      or meta_content(soup, name="pubdate")
      or meta_content(soup, name="date")
  )
  if not published:
      page_text = soup.get_text("\n", strip=True)
      m = re.search(r"Published:\s*([0-9]{1,2}\s+[A-Za-z]{3}\s+[0-9]{4})", page_text)
      if m:
          published = clean(m.group(1))
  \<close>
\<close>

definition published_cascade :: "soup \<Rightarrow> string option \<Rightarrow> string option" where
  "published_cascade s date_ld =
     por date_ld (por (meta_content s (Prop ''article:published_time''))
       (por (meta_content s (Name ''pubdate'')) (meta_content s (Name ''date''))))"

definition resolve_published :: "soup \<Rightarrow> string option \<Rightarrow> string option" where
  "resolve_published s date_ld =
     (let published = published_cascade s date_ld
      in if \<not> truthy published
         then (case search_group False date_prefix date_group None (page_text s) of
                 Some g \<Rightarrow> clean (Some g)
               | None \<Rightarrow> published)
         else published)"

section \<open>The environment\<close>

text \<open>
  What the program reaches through libraries, each call either raising or returning:
  the HTTP GET of \<^verbatim>\<open>fetch_with_requests\<close> (status code and text), the rendering of
  the page in \<^verbatim>\<open>fetch_with_playwright\<close> (the HTML), the HTML parser, and
  \<^verbatim>\<open>urlparse(url).netloc\<close>. An exception is modelled by its \<^verbatim>\<open>str(e)\<close>. Console
  output and \<^verbatim>\<open>time.sleep\<close> are left out.
\<close>

datatype exc = Exc string

record env =
  session_get :: "string \<Rightarrow> exc + (int \<times> string)"
  page_content :: "string \<Rightarrow> exc + string"
  BeautifulSoup :: "string \<Rightarrow> exc + soup"
  urlparse_netloc :: "string \<Rightarrow> exc + string"

definition USE_PLAYWRIGHT_FALLBACK :: bool where
  "USE_PLAYWRIGHT_FALLBACK = True"

text \<open>\<^verbatim>\<open>return urlparse(url).netloc.lower()\<close>\<close>

definition get_domain :: "env \<Rightarrow> string \<Rightarrow> exc + string" where
  "get_domain E u = (case urlparse_netloc E u of Inl e \<Rightarrow> Inl e | Inr d \<Rightarrow> Inr (lower d))"

definition fetch_with_requests :: "env \<Rightarrow> string \<Rightarrow> exc + (int \<times> string)" where
  "fetch_with_requests E u = session_get E u"

text \<open>\<^verbatim>\<open>html = page.content(); browser.close(); return 200, html\<close>\<close>

definition fetch_with_playwright :: "env \<Rightarrow> string \<Rightarrow> exc + (int \<times> string)" where
  "fetch_with_playwright E u =
     (case page_content E u of Inl e \<Rightarrow> Inl e | Inr html \<Rightarrow> Inr (200, html))"

text \<open>
  \<^verbatim>\<open>def parse_page_generic(html: str, url: str) -> dict\<close>, in the order in which the
  source evaluates: the parser first, the domain when the dictionary is built.
\<close>

definition parse_page_generic :: "env \<Rightarrow> string \<Rightarrow> string \<Rightarrow> exc + article" where
  "parse_page_generic E html u =
     (case BeautifulSoup E html of
        Inl e \<Rightarrow> Inl e
      | Inr s \<Rightarrow>
          (let title' = por (first_text s [''h1''])
                          (por (meta_content s (Prop ''og:title'')) (first_text s [''title'']));
               description' = por (meta_content s (Name ''description''))
                                (meta_content s (Prop ''og:description''));
               ld = parse_json_ld_for_article s;
               author' = por (fst ld)
                           (por (meta_content s (Name ''author''))
                                (meta_content s (Prop ''article:author'')));
               published = resolve_published s (snd ld);
               body' = extract_body_generic s
           in case get_domain E u of
                Inl e \<Rightarrow> Inl e
              | Inr d \<Rightarrow>
                  Inr \<lparr>url = u, site = d, title = title', author = author',
                       published_date = published, description = description',
                       body = body', error = None\<rparr>))"

text \<open>\<^verbatim>\<open>str(n)\<close> for an integer.\<close>

fun str_nat :: "nat \<Rightarrow> string" where
  "str_nat n =
     (if n < 10 then [char_of (48 + n)] else str_nat (n div 10) @ [char_of (48 + n mod 10)])"

definition str_int :: "int \<Rightarrow> string" where
  "str_int i = (if i < 0 then CHR ''-'' # str_nat (nat (- i)) else str_nat (nat i))"

text \<open>The dictionary that both error branches of \<^verbatim>\<open>scrape_urls\<close> build.\<close>

definition error_record :: "string \<Rightarrow> string \<Rightarrow> string \<Rightarrow> article" where
  "error_record u d msg =
     \<lparr>url = u, site = d, title = None, author = None, published_date = None,
      description = None, body = None, error = Some msg\<rparr>"

text \<open>
  The \<^verbatim>\<open>try\<close> block of \<^verbatim>\<open>scrape_urls\<close> for one URL: the record it appends, or the
  exception that leaves it.
  \<^verbatim>\<open>
  status, html = fetch_with_requests(url)
  if status in (403, 429) and USE_PLAYWRIGHT_FALLBACK:
      status, html = fetch_with_playwright(url)
  if status != 200 or not html:
      results.append({"url": url, "site": get_domain(url), ..., "error": f"HTTP {status}"})
  else:
      results.append(parse_page_generic(html, url))
  \<close>
\<close>

definition try_block :: "env \<Rightarrow> string \<Rightarrow> exc + article" where
  "try_block E u =
     (case fetch_with_requests E u of
        Inl e \<Rightarrow> Inl e
      | Inr (status, html) \<Rightarrow>
          (case (if (status = 403 \<or> status = 429) \<and> USE_PLAYWRIGHT_FALLBACK
                 then fetch_with_playwright E u else Inr (status, html)) of
             Inl e \<Rightarrow> Inl e
           | Inr (status', html') \<Rightarrow>
               if status' \<noteq> 200 \<or> html' = []
               then (case get_domain E u of
                       Inl e \<Rightarrow> Inl e
                     | Inr d \<Rightarrow> Inr (error_record u d (''HTTP '' @ str_int status')))
               else parse_page_generic E html' u))"

text \<open>
  The loop of \<^verbatim>\<open>scrape_urls\<close>, with \<^verbatim>\<open>results\<close> as accumulator. The handler
  \<^verbatim>\<open>except Exception as e\<close> calls \<^verbatim>\<open>get_domain(url)\<close> itself; an exception raised
  there is not caught and leaves \<^verbatim>\<open>scrape_urls\<close> (\<open>Inl\<close>).
\<close>

fun scrape_loop :: "env \<Rightarrow> string list \<Rightarrow> article list \<Rightarrow> exc + article list" where
  "scrape_loop E [] results = Inr results"
| "scrape_loop E (u # us) results =
     (case try_block E u of
        Inr r \<Rightarrow> scrape_loop E us (results @ [r])
      | Inl (Exc msg) \<Rightarrow>
          (case get_domain E u of
             Inl e \<Rightarrow> Inl e
           | Inr d \<Rightarrow> scrape_loop E us (results @ [error_record u d msg])))"

definition scrape_urls :: "env \<Rightarrow> string list \<Rightarrow> exc + article list" where
  "scrape_urls E urls = scrape_loop E urls []"

section \<open>The numbers table\<close>

record metric_row =
  row_url :: string
  row_site :: string
  row_title :: "string option"
  row_published_date :: "string option"
  row_metric_type :: mtype
  row_value :: string
  context_snippet :: string

definition make_row :: "article \<Rightarrow> hit \<Rightarrow> metric_row" where
  "make_row r s =
     \<lparr>row_url = url r, row_site = site r, row_title = title r,
      row_published_date = published_date r, row_metric_type = metric_type s,
      row_value = metric_value s, context_snippet = snippet s\<rparr>"

definition or_empty :: "string option \<Rightarrow> string" where
  "or_empty x = (case x of None \<Rightarrow> [] | Some s \<Rightarrow> s)"

text \<open>\<^verbatim>\<open>combined = f"{r.get('description') or ''}\n\n{r.get('body') or ''}"\<close>\<close>

definition combined :: "article \<Rightarrow> string" where
  "combined r = or_empty (description r) @ blank_line @ or_empty (body r)"

text \<open>
  \<^verbatim>\<open>
  def build_numbers_table(rows, max_snippets_per_url: int = 6):
      out = []
      for r in rows:
          if r.get("error"):
              continue
          combined = ...
          snippets = extract_percent_and_time_snippets(combined, window=90, max_hits=80)
          if not snippets:
              continue
          for s in snippets[:max_snippets_per_url]:
              out.append({...})
      return out
  \<close>
\<close>

fun table_loop :: "article list \<Rightarrow> int \<Rightarrow> metric_row list \<Rightarrow> metric_row list" where
  "table_loop [] n out = out"
| "table_loop (r # rs) n out =
     (if truthy (error r) then table_loop rs n out
      else (let snippets = extract_percent_and_time_snippets (combined r) 90 80
            in if snippets = [] then table_loop rs n out
               else table_loop rs n (out @ map (make_row r) (py_slice snippets 0 n))))"

definition build_numbers_table :: "article list \<Rightarrow> int \<Rightarrow> metric_row list" where
  "build_numbers_table rows max_snippets_per_url = table_loop rows max_snippets_per_url []"

section \<open>Notions used in the statements\<close>

text \<open>The hits of one pattern without any cap: each match visited in the order of
  \<^verbatim>\<open>re.finditer\<close>, starting from no hits.\<close>

definition pattern_hits :: "mtype \<Rightarrow> string \<Rightarrow> int \<Rightarrow> rx \<Rightarrow> hit list" where
  "pattern_hits ty text window pat =
     concat (map (\<lambda>m. visit ty text window m []) (finditer True pat text))"

text \<open>The hits of one family without any cap: pattern after pattern, in the order of
  the family's list.\<close>

definition family_hits :: "mtype \<Rightarrow> string \<Rightarrow> int \<Rightarrow> rx list \<Rightarrow> hit list" where
  "family_hits ty text window pats = concat (map (pattern_hits ty text window) pats)"


definition error_excludes_fields :: "article \<Rightarrow> bool" where
  "error_excludes_fields r =
     (error r = None \<or>
      (title r = None \<and> author r = None \<and> published_date r = None \<and>
       description r = None \<and> body r = None))"

text \<open>The rows that one pass of the loop of \<^verbatim>\<open>build_numbers_table\<close> appends.\<close>

definition rows_of :: "int \<Rightarrow> article \<Rightarrow> metric_row list" where
  "rows_of n r =
     (if truthy (error r) then []
      else map (make_row r) (py_slice (extract_percent_and_time_snippets (combined r) 90 80) 0 n))"



text \<open>
  The hits of one family as the specification words the order: the matches of all the
  family's patterns taken together by match position, with no cap.
\<close>

definition in_source_order :: "mtype \<Rightarrow> string \<Rightarrow> int \<Rightarrow> rx list \<Rightarrow> hit list" where
  "in_source_order ty text window pats =
     concat (map (\<lambda>m. visit ty text window m [])
       (sort_key fst (concat (map (\<lambda>p. finditer True p text) pats))))"

subsection \<open>Example data\<close>

text \<open>A page whose only container is an \<^verbatim>\<open>article\<close> element with the given
  paragraphs, and no metadata.\<close>

definition article_soup :: "string list \<Rightarrow> soup" where
  "article_soup ps =
     \<lparr>select_one = (\<lambda>sel. if sel = ''article'' then Some (Element (join '' '' ps) None ps)
                           else None),
      find_meta = (\<lambda>k. None), json_ld = None, page_text = join [CHR 0x0A] ps\<rparr>"

text \<open>An environment in which one URL is served, one answers 404 and every other
  request times out.\<close>

definition example_env :: env where
  "example_env =
     \<lparr>session_get = (\<lambda>u. if u = ''https://a.example/x'' then Inr (200, ''<html>'')
                          else if u = ''https://b.example/y'' then Inr (404, ''gone'')
                          else Inl (Exc ''timed out'')),
      page_content = (\<lambda>u. Inl (Exc ''no browser'')),
      BeautifulSoup = (\<lambda>html. Inr (article_soup [''We saved 5%.''])),
      urlparse_netloc = (\<lambda>u. Inr (takeWhile (\<lambda>c. c \<noteq> CHR ''/'') (drop 8 u)))\<rparr>"

text \<open>An environment in which every request is served and the parser returns the
  given page.\<close>

definition page_env :: "soup \<Rightarrow> env" where
  "page_env s =
     \<lparr>session_get = (\<lambda>u. Inr (200, ''<html>'')),
      page_content = (\<lambda>u. Inl (Exc ''no browser'')),
      BeautifulSoup = (\<lambda>html. Inr s),
      urlparse_netloc = (\<lambda>u. Inr ''a.example'')\<rparr>"

definition example_urls :: "string list" where
  "example_urls = [''https://a.example/x'', ''https://b.example/y'', ''https://c.example/z'']"

definition ten_cuts :: article where
  "ten_cuts = \<lparr>url = ''https://a.example/x'', site = ''a.example'', title = Some ''T'',
     author = None, published_date = None, description = Some ''cut 1% 2% 3% 4% 5%'',
     body = Some ''6% 7% 8% 9% 10%'', error = None\<rparr>"

section \<open>Properties\<close>

subsection \<open>Text\<close>

lemma contains_iff: "contains k t \<longleftrightarrow> (\<exists>p s. t = p @ k @ s)"
proof (induction t)
  case Nil
  then show ?case by auto
next
  case (Cons x xs)
  show ?case
  proof
    assume "contains k (x # xs)"
    then consider "prefix k (x # xs)" | "contains k xs" by auto
    then show "\<exists>p s. x # xs = p @ k @ s"
    proof cases
      case 1
      then obtain s where "x # xs = k @ s" by (auto simp: prefix_def)
      then have "x # xs = [] @ k @ s" by simp
      then show ?thesis by blast
    next
      case 2
      with Cons.IH obtain p s where "xs = p @ k @ s" by blast
      then have "x # xs = (x # p) @ k @ s" by simp
      then show ?thesis by blast
    qed
  next
    assume "\<exists>p s. x # xs = p @ k @ s"
    then obtain p s where ps: "x # xs = p @ k @ s" by blast
    show "contains k (x # xs)"
    proof (cases p)
      case Nil
      with ps have "prefix k (x # xs)" by (simp add: prefix_def)
      then show ?thesis by simp
    next
      case (Cons y p')
      with ps have "xs = p' @ k @ s" by simp
      with Cons.IH have "contains k xs" by blast
      then show ?thesis by simp
    qed
  qed
qed

lemma py_slice_take: "0 \<le> n \<Longrightarrow> py_slice xs 0 n = take (nat n) xs"
  by (simp add: py_slice_def slice_index_def Let_def min_def)

lemma py_slice_Nil: "py_slice [] i j = []"
  by (simp add: py_slice_def)

subsection \<open>The orchestrator\<close>


lemma parse_page_generic_fields:
  assumes "parse_page_generic E html u = Inr r"
  shows "url r = u \<and> error r = None"
  using assms
  by (auto simp: parse_page_generic_def Let_def split: sum.splits)

lemma try_block_fields:
  assumes "try_block E u = Inr r"
  shows "url r = u \<and>
    (error r = None \<or>
     (title r = None \<and> author r = None \<and> published_date r = None \<and>
      description r = None \<and> body r = None))"
proof -
  from assms obtain st h where
    alt: "(st \<noteq> 200 \<or> h = []) \<and> (\<exists>d. r = error_record u d (''HTTP '' @ str_int st))
          \<or> parse_page_generic E h u = Inr r"
    by (auto simp: try_block_def split: sum.splits prod.splits if_splits)
  then show ?thesis
    using parse_page_generic_fields[of E h u r] by (auto simp: error_record_def)
qed




lemma scrape_loop_inv:
  assumes "scrape_loop E us results = Inr rs"
    and "list_all Q results"
    and "\<And>u r. try_block E u = Inr r \<Longrightarrow> Q r"
    and "\<And>u d msg. Q (error_record u d msg)"
  shows "list_all Q rs"
  using assms(1,2)
proof (induction us arbitrary: results)
  case Nil
  then show ?case by simp
next
  case (Cons u us)
  show ?case
  proof (cases "try_block E u")
    case (Inl e)
    obtain msg where e: "e = Exc msg" by (cases e)
    from Cons.prems(1) Inl e obtain d where
      "scrape_loop E us (results @ [error_record u d msg]) = Inr rs"
      by (auto split: sum.splits)
    moreover have "list_all Q (results @ [error_record u d msg])"
      using Cons.prems(2) assms(4) by simp
    ultimately show ?thesis by (rule Cons.IH)
  next
    case (Inr r)
    with Cons.prems(1) have "scrape_loop E us (results @ [r]) = Inr rs" by simp
    moreover have "list_all Q (results @ [r])"
      using Cons.prems(2) assms(3)[OF Inr] by simp
    ultimately show ?thesis by (rule Cons.IH)
  qed
qed



lemma example_run:
  "scrape_urls example_env example_urls =
     Inr [\<lparr>url = ''https://a.example/x'', site = ''a.example'', title = None, author = None,
           published_date = None, description = None, body = Some ''We saved 5%.'',
           error = None\<rparr>,
          \<lparr>url = ''https://b.example/y'', site = ''b.example'', title = None, author = None,
           published_date = None, description = None, body = None,
           error = Some ''HTTP 404''\<rparr>,
          \<lparr>url = ''https://c.example/z'', site = ''c.example'', title = None, author = None,
           published_date = None, description = None, body = None,
           error = Some ''timed out''\<rparr>]"
  by code_simp



text \<open>
  C2. In every record that \<^verbatim>\<open>scrape_urls\<close> returns, \<^verbatim>\<open>error\<close> and \<^verbatim>\<open>body\<close> are
  never both present, and when \<^verbatim>\<open>error\<close> is present then title, author,
  published date, description and body are all absent.
\<close>

theorem error_and_body_exclusive:
  assumes "scrape_urls E urls = Inr rs" and "r \<in> set rs"
  shows "(error r = None \<or> body r = None)
    \<and> (error r = None \<or>
        (title r = None \<and> author r = None \<and> published_date r = None \<and>
         description r = None \<and> body r = None))"
proof -
  have "list_all error_excludes_fields rs"
  proof (rule scrape_loop_inv)
    show "scrape_loop E urls [] = Inr rs" using assms(1) by (simp add: scrape_urls_def)
    show "list_all error_excludes_fields []" by simp
    show "\<And>u r. try_block E u = Inr r \<Longrightarrow> error_excludes_fields r"
      using try_block_fields by (simp add: error_excludes_fields_def)
    show "\<And>u d msg. error_excludes_fields (error_record u d msg)"
      by (simp add: error_excludes_fields_def error_record_def)
  qed
  with assms(2) have "error_excludes_fields r" by (simp add: list_all_iff)
  then show ?thesis by (auto simp: error_excludes_fields_def)
qed

theorem error_and_body_exclusive_witness:
  "(\<exists>rs. scrape_urls example_env example_urls = Inr rs \<and> rs ! 1 \<in> set rs \<and> rs ! 0 \<in> set rs
      \<and> error (rs ! 1) = Some ''HTTP 404'' \<and> title (rs ! 1) = None \<and> author (rs ! 1) = None
      \<and> published_date (rs ! 1) = None \<and> description (rs ! 1) = None \<and> body (rs ! 1) = None
      \<and> body (rs ! 0) = Some ''We saved 5%.'' \<and> error (rs ! 0) = None)"
proof -
  let ?rs = "[\<lparr>url = ''https://a.example/x'', site = ''a.example'', title = None, author = None,
           published_date = None, description = None, body = Some ''We saved 5%.'',
           error = None\<rparr>,
          \<lparr>url = ''https://b.example/y'', site = ''b.example'', title = None, author = None,
           published_date = None, description = None, body = None,
           error = Some ''HTTP 404''\<rparr>,
          \<lparr>url = ''https://c.example/z'', site = ''c.example'', title = None, author = None,
           published_date = None, description = None, body = None,
           error = Some ''timed out''\<rparr>]"
  have m1: "?rs ! 1 \<in> set ?rs" and m0: "?rs ! 0 \<in> set ?rs" by simp_all
  have e1: "error (?rs ! 1) = Some ''HTTP 404''" by simp
  from error_and_body_exclusive[OF example_run m1] e1
  have f1: "title (?rs ! 1) = None \<and> author (?rs ! 1) = None \<and> published_date (?rs ! 1) = None
      \<and> description (?rs ! 1) = None \<and> body (?rs ! 1) = None"
    by simp
  have b0: "body (?rs ! 0) = Some ''We saved 5%.''" by simp
  from error_and_body_exclusive[OF example_run m0] b0
  have f0: "error (?rs ! 0) = None" by simp
  from example_run m1 m0 e1 f1 b0 f0 show ?thesis by blast
qed

subsection \<open>Concrete texts\<close>

text \<open>
  C7. On \<^verbatim>\<open>"Our team reduced review time by 42.5% after adopting the tool."\<close>, with the
  default window 90 and cap 80, the miner returns exactly one snippet: of type percent,
  with value \<^verbatim>\<open>"42.5%"\<close>, and with a snippet text that contains \<^verbatim>\<open>"reduced"\<close>.
\<close>

theorem review_time_one_percent_snippet:
  "extract_percent_and_time_snippets
     ''Our team reduced review time by 42.5% after adopting the tool.'' 90 80
   = [\<lparr>metric_type = Percent, metric_value = ''42.5%'',
       snippet = ''Our team reduced review time by 42.5% after adopting the tool.''\<rparr>]
   \<and> contains ''reduced'' ''Our team reduced review time by 42.5% after adopting the tool.''"
  by code_simp

text \<open>
  C8. On \<^verbatim>\<open>"The meeting room costs $42.50 per hour to book."\<close>, with the default window
  and cap, the miner returns the empty list.
\<close>

theorem meeting_room_no_snippet:
  "extract_percent_and_time_snippets ''The meeting room costs $42.50 per hour to book.'' 90 80
   = []"
  by code_simp


subsection \<open>The loops of the miner\<close>

lemma visit_append: "visit ty text w m hits = hits @ visit ty text w m []"
  by (simp add: visit_def Let_def split: option.splits)

lemma visit_length: "length (visit ty text w m []) \<le> 1"
  by (simp add: visit_def Let_def split: option.splits)

lemma visit_hit:
  assumes "h \<in> set (visit ty text w m [])"
  shows "metric_type h = ty \<and> list_ex (\<lambda>k. contains k (lower (snippet h))) CHANGE_KEYWORDS"
  using assms
  by (auto simp: visit_def Let_def snippet_has_change_context_def split: option.splits if_splits)

lemma pattern_hits_hit:
  assumes "h \<in> set (pattern_hits ty text w p)"
  shows "metric_type h = ty \<and> list_ex (\<lambda>k. contains k (lower (snippet h))) CHANGE_KEYWORDS"
  using assms visit_hit by (fastforce simp: pattern_hits_def)

lemma family_hits_hit:
  assumes "h \<in> set (family_hits ty text w pats)"
  shows "metric_type h = ty \<and> list_ex (\<lambda>k. contains k (lower (snippet h))) CHANGE_KEYWORDS"
  using assms pattern_hits_hit by (fastforce simp: family_hits_def)

lemma match_loop_take:
  assumes "int (length hits) < mh"
  shows "match_loop ty text w mh ms hits =
     (let all = hits @ concat (map (\<lambda>m. visit ty text w m []) ms)
      in if mh \<le> int (length all) then Inl (take (nat mh) all) else Inr all)"
  using assms
proof (induction ms arbitrary: hits)
  case Nil
  then show ?case by simp
next
  case (Cons m ms)
  let ?v = "visit ty text w m []"
  have v: "visit ty text w m hits = hits @ ?v" by (rule visit_append)
  have lv: "length ?v \<le> 1" by (rule visit_length)
  show ?case
  proof (cases "mh \<le> int (length (hits @ ?v))")
    case True
    with Cons.prems lv have eq: "nat mh = length (hits @ ?v)" by auto
    have "take (nat mh) ((hits @ ?v) @ concat (map (\<lambda>m. visit ty text w m []) ms)) = hits @ ?v"
      unfolding eq by simp
    with True show ?thesis by (simp add: v Let_def)
  next
    case False
    then have "int (length (hits @ ?v)) < mh" by simp
    from Cons.IH[OF this] False show ?thesis by (simp add: v Let_def)
  qed
qed

lemma pattern_loop_take:
  assumes "int (length hits) < mh"
  shows "pattern_loop ty text w mh pats hits =
     (let all = hits @ family_hits ty text w pats
      in if mh \<le> int (length all) then Inl (take (nat mh) all) else Inr all)"
  using assms
proof (induction pats arbitrary: hits)
  case Nil
  then show ?case by (simp add: family_hits_def)
next
  case (Cons p ps)
  let ?a = "hits @ pattern_hits ty text w p"
  have ml: "match_loop ty text w mh (finditer True p text) hits =
      (if mh \<le> int (length ?a) then Inl (take (nat mh) ?a) else Inr ?a)"
    using match_loop_take[OF Cons.prems, of ty "text" w "finditer True p text"]
    by (simp add: pattern_hits_def Let_def)
  have fh: "family_hits ty text w (p # ps) = pattern_hits ty text w p @ family_hits ty text w ps"
    by (simp add: family_hits_def)
  show ?case
  proof (cases "mh \<le> int (length ?a)")
    case True
    then have "nat mh \<le> length ?a" by simp
    then have "take (nat mh) (?a @ family_hits ty text w ps) = take (nat mh) ?a" by simp
    with True show ?thesis by (simp add: ml fh Let_def)
  next
    case False
    then have "int (length ?a) < mh" by simp
    from Cons.IH[OF this] False show ?thesis by (simp add: ml fh Let_def)
  qed
qed

lemma finditer_empty_percent: "map (\<lambda>p. finditer True p []) PERCENT_PATTERNS = [[], [], []]"
  by (simp add: PERCENT_PATTERNS_def finditer_def number_def)

lemma finditer_empty_time: "map (\<lambda>p. finditer True p []) TIME_PATTERNS = [[], []]"
  by (simp add: TIME_PATTERNS_def finditer_def number_def)

lemma family_hits_empty:
  "family_hits Percent [] w PERCENT_PATTERNS @ family_hits Time [] w TIME_PATTERNS = []"
  using finditer_empty_percent finditer_empty_time
  by (simp add: family_hits_def pattern_hits_def PERCENT_PATTERNS_def TIME_PATTERNS_def)

lemma extract_take:
  assumes "1 \<le> mh"
  shows "extract_percent_and_time_snippets text w mh =
    take (nat mh) (family_hits Percent text w PERCENT_PATTERNS @ family_hits Time text w TIME_PATTERNS)"
proof (cases "text = []")
  case True
  then show ?thesis by (simp add: extract_percent_and_time_snippets_def family_hits_empty)
next
  case False
  let ?P = "family_hits Percent text w PERCENT_PATTERNS"
  let ?T = "family_hits Time text w TIME_PATTERNS"
  have h0: "int (length ([]::hit list)) < mh" using assms by simp
  have pl: "pattern_loop Percent text w mh PERCENT_PATTERNS [] =
      (if mh \<le> int (length ?P) then Inl (take (nat mh) ?P) else Inr ?P)"
    using pattern_loop_take[OF h0, of Percent "text" w PERCENT_PATTERNS] by (simp add: Let_def)
  show ?thesis
  proof (cases "mh \<le> int (length ?P)")
    case True
    then have "nat mh \<le> length ?P" by simp
    then have "take (nat mh) (?P @ ?T) = take (nat mh) ?P" by simp
    with True False show ?thesis
      by (simp add: extract_percent_and_time_snippets_def pl)
  next
    case np: False
    then have lt: "int (length ?P) < mh" by simp
    have tl: "pattern_loop Time text w mh TIME_PATTERNS ?P =
      (if mh \<le> int (length (?P @ ?T)) then Inl (take (nat mh) (?P @ ?T)) else Inr (?P @ ?T))"
      using pattern_loop_take[OF lt, of Time "text" w TIME_PATTERNS] by (simp add: Let_def)
    have "\<not> mh \<le> int (length (?P @ ?T)) \<Longrightarrow> take (nat mh) (?P @ ?T) = ?P @ ?T"
      by simp
    with np False show ?thesis
      by (simp add: extract_percent_and_time_snippets_def pl tl del: length_append take_append)
  qed
qed

lemma match_loop_prefix:
  "(case match_loop ty tx w mh ms hits of
      Inl r \<Rightarrow> prefix hits r \<and> prefix r (hits @ concat (map (\<lambda>m. visit ty tx w m []) ms))
    | Inr r \<Rightarrow> r = hits @ concat (map (\<lambda>m. visit ty tx w m []) ms))"
proof (induction ms arbitrary: hits)
  case Nil
  then show ?case by simp
next
  case (Cons m ms)
  let ?v = "visit ty tx w m []"
  let ?rest = "concat (map (\<lambda>m. visit ty tx w m []) ms)"
  have v: "visit ty tx w m hits = hits @ ?v" by (rule visit_append)
  show ?case
  proof (cases "mh \<le> int (length (hits @ ?v))")
    case True
    then show ?thesis by (simp add: v Let_def)
  next
    case False
    have step: "match_loop ty tx w mh (m # ms) hits = match_loop ty tx w mh ms (hits @ ?v)"
      using False by (simp add: v Let_def)
    show ?thesis
    proof (cases "match_loop ty tx w mh ms (hits @ ?v)")
      case (Inl r)
      with Cons.IH[of "hits @ ?v"] have "prefix (hits @ ?v) r" and "prefix r ((hits @ ?v) @ ?rest)"
        by simp_all
      then have "prefix hits r" and "prefix r (hits @ ?v @ ?rest)"
        by (auto elim: append_prefixD)
      with Inl step show ?thesis by simp
    next
      case (Inr r)
      with Cons.IH[of "hits @ ?v"] have "r = (hits @ ?v) @ ?rest" by simp
      with Inr step show ?thesis by simp
    qed
  qed
qed

lemma match_loop_Inl:
  assumes "match_loop ty tx w mh (finditer True p tx) hits = Inl r"
  shows "prefix hits r \<and> prefix r (hits @ pattern_hits ty tx w p)"
  using match_loop_prefix[where ty = ty and tx = tx and w = w and mh = mh
      and ms = "finditer True p tx" and hits = hits] assms
  by (simp add: pattern_hits_def)

lemma match_loop_Inr:
  assumes "match_loop ty tx w mh (finditer True p tx) hits = Inr r"
  shows "r = hits @ pattern_hits ty tx w p"
  using match_loop_prefix[where ty = ty and tx = tx and w = w and mh = mh
      and ms = "finditer True p tx" and hits = hits] assms
  by (simp add: pattern_hits_def)

lemma pattern_loop_prefix:
  "(case pattern_loop ty tx w mh pats hits of
      Inl r \<Rightarrow> prefix hits r \<and> prefix r (hits @ family_hits ty tx w pats)
    | Inr r \<Rightarrow> r = hits @ family_hits ty tx w pats)"
proof (induction pats arbitrary: hits)
  case Nil
  then show ?case by (simp add: family_hits_def)
next
  case (Cons p ps)
  have fh: "family_hits ty tx w (p # ps) = pattern_hits ty tx w p @ family_hits ty tx w ps"
    by (simp add: family_hits_def)
  show ?case
  proof (cases "match_loop ty tx w mh (finditer True p tx) hits")
    case (Inl r)
    from match_loop_Inl[OF Inl]
    have "prefix hits r" and "prefix r (hits @ pattern_hits ty tx w p)"
      by simp_all
    then have "prefix hits r" and "prefix r (hits @ family_hits ty tx w (p # ps))"
      unfolding fh by (auto simp: prefix_def)
    with Inl show ?thesis by simp
  next
    case (Inr r)
    have r: "r = hits @ pattern_hits ty tx w p" by (rule match_loop_Inr[OF Inr])
    show ?thesis
    proof (cases "pattern_loop ty tx w mh ps r")
      case il: (Inl q)
      with Cons.IH[of r] have "prefix r q" and "prefix q (r @ family_hits ty tx w ps)"
        by simp_all
      then have "prefix hits q" and "prefix q (hits @ family_hits ty tx w (p # ps))"
        unfolding fh r by (auto elim: append_prefixD)
      with Inr il show ?thesis by simp
    next
      case ir: (Inr q)
      with Cons.IH[of r] have "q = r @ family_hits ty tx w ps" by simp
      with Inr ir show ?thesis by (simp add: r fh)
    qed
  qed
qed

lemma pattern_loop_Inl:
  assumes "pattern_loop ty tx w mh pats hits = Inl r"
  shows "prefix r (hits @ family_hits ty tx w pats)"
  using pattern_loop_prefix[where ty = ty and tx = tx and w = w and mh = mh
      and pats = pats and hits = hits] assms
  by simp

lemma pattern_loop_Inr:
  assumes "pattern_loop ty tx w mh pats hits = Inr r"
  shows "r = hits @ family_hits ty tx w pats"
  using pattern_loop_prefix[where ty = ty and tx = tx and w = w and mh = mh
      and pats = pats and hits = hits] assms
  by simp

lemma extract_prefix:
  "prefix (extract_percent_and_time_snippets tx w mh)
     (family_hits Percent tx w PERCENT_PATTERNS @ family_hits Time tx w TIME_PATTERNS)"
proof (cases "tx = []")
  case True
  then show ?thesis by (simp add: extract_percent_and_time_snippets_def)
next
  case False
  let ?P = "family_hits Percent tx w PERCENT_PATTERNS"
  let ?T = "family_hits Time tx w TIME_PATTERNS"
  show ?thesis
  proof (cases "pattern_loop Percent tx w mh PERCENT_PATTERNS []")
    case (Inl r)
    from pattern_loop_Inl[OF Inl] have "prefix r ?P" by simp
    then have "prefix r (?P @ ?T)" by (auto simp: prefix_def)
    with Inl False show ?thesis by (simp add: extract_percent_and_time_snippets_def)
  next
    case (Inr r)
    from pattern_loop_Inr[OF Inr] have r: "r = ?P" by simp
    show ?thesis
    proof (cases "pattern_loop Time tx w mh TIME_PATTERNS r")
      case il: (Inl q)
      from pattern_loop_Inl[OF il] have "prefix q (r @ ?T)" by simp
      with Inr il False show ?thesis by (simp add: extract_percent_and_time_snippets_def r)
    next
      case ir: (Inr q)
      from pattern_loop_Inr[OF ir] have "q = r @ ?T" by simp
      with Inr ir False show ?thesis by (simp add: extract_percent_and_time_snippets_def r)
    qed
  qed
qed

lemma scan_starts:
  "(\<forall>m\<in>set (scan ic r pos p skip xs). pos \<le> fst m)
   \<and> sorted_wrt (<) (map fst (scan ic r pos p skip xs))"
proof (induction xs arbitrary: pos p skip)
  case Nil
  then show ?case by (simp split: list.splits)
next
  case (Cons x xs)
  have ih: "\<And>q k. (\<forall>m\<in>set (scan ic r (Suc pos) q k xs). Suc pos \<le> fst m)
      \<and> sorted_wrt (<) (map fst (scan ic r (Suc pos) q k xs))"
    using Cons.IH by blast
  show ?case
  proof (cases "pos < skip \<or> bt ic r (p, x # xs) = []")
    case True
    then have "scan ic r pos p skip (x # xs) = scan ic r (Suc pos) (Some x) skip xs"
      by (auto split: list.splits)
    with ih[of "Some x" skip] show ?thesis by (auto simp: Suc_le_eq less_imp_le)
  next
    case False
    then obtain st sts where b: "bt ic r (p, x # xs) = st # sts" and ns: "\<not> pos < skip"
      by (cases "bt ic r (p, x # xs)") auto
    let ?e = "pos + (length (x # xs) - length (snd st))"
    have eq: "scan ic r pos p skip (x # xs) = (pos, ?e) # scan ic r (Suc pos) (Some x) ?e xs"
      using b ns by (simp add: Let_def)
    from ih[of "Some x" ?e] show ?thesis
      unfolding eq by (auto simp: Suc_le_eq less_imp_le)
  qed
qed

lemma finditer_sorted: "sorted_wrt (<) (map fst (finditer ic r text))"
  using scan_starts[of ic r 0 None 0 "text"] by (simp add: finditer_def)

lemma take_filter_split:
  assumes "\<forall>h\<in>set P. f h = a" and "\<forall>h\<in>set T. f h = b" and "a \<noteq> b"
  shows "take n (P @ T) = filter (\<lambda>h. f h = a) (take n (P @ T)) @ filter (\<lambda>h. f h = b) (take n (P @ T))"
proof -
  have p: "filter (\<lambda>h. f h = a) (take n P) = take n P" "filter (\<lambda>h. f h = b) (take n P) = []"
    using assms by (auto simp: filter_id_conv filter_empty_conv dest: in_set_takeD)
  have t: "filter (\<lambda>h. f h = a) (take (n - length P) T) = []"
    "filter (\<lambda>h. f h = b) (take (n - length P) T) = take (n - length P) T"
    using assms by (auto simp: filter_id_conv filter_empty_conv dest: in_set_takeD)
  show ?thesis by (simp add: p t)
qed

lemma prefix_take: "prefix xs ys \<Longrightarrow> xs = take (length xs) ys"
  by (auto simp: prefix_def)

lemma family_types:
  "\<forall>h\<in>set (family_hits ty tx w pats). metric_type h = ty"
  using family_hits_hit by blast

lemma extract_partition:
  "extract_percent_and_time_snippets tx w mh
   = filter (\<lambda>h. metric_type h = Percent) (extract_percent_and_time_snippets tx w mh)
     @ filter (\<lambda>h. metric_type h = Time) (extract_percent_and_time_snippets tx w mh)"
proof -
  let ?P = "family_hits Percent tx w PERCENT_PATTERNS"
  let ?T = "family_hits Time tx w TIME_PATTERNS"
  let ?r = "extract_percent_and_time_snippets tx w mh"
  have r: "?r = take (length ?r) (?P @ ?T)"
    by (rule prefix_take[OF extract_prefix])
  have "take (length ?r) (?P @ ?T)
      = filter (\<lambda>h. metric_type h = Percent) (take (length ?r) (?P @ ?T))
        @ filter (\<lambda>h. metric_type h = Time) (take (length ?r) (?P @ ?T))"
    by (rule take_filter_split) (simp_all add: family_types)
  with r show ?thesis by simp
qed

lemma extract_relevant:
  "list_all (\<lambda>h. list_ex (\<lambda>k. contains k (lower (snippet h))) CHANGE_KEYWORDS)
     (extract_percent_and_time_snippets tx w mh)"
proof -
  have "set (extract_percent_and_time_snippets tx w mh)
      \<subseteq> set (family_hits Percent tx w PERCENT_PATTERNS @ family_hits Time tx w TIME_PATTERNS)"
    by (rule set_mono_prefix[OF extract_prefix])
  then show ?thesis
    using family_hits_hit by (fastforce simp: list_all_iff)
qed

lemma cap_example_80:
  "map metric_value (extract_percent_and_time_snippets ''cut 1% 2% in 3 min'' 90 80)
     = [''1%'', ''2%'', ''3 min'']"
  by code_simp

text \<open>
  C3 (as amended). For a cap \<open>max_hits\<close> of at least 1, the miner returns at most
  \<open>max_hits\<close> snippets: exactly the first \<open>max_hits\<close> of the sequence made of the percent
  hits followed by the time hits, so that nothing is emitted once the cap is reached,
  whichever pattern or family reached it, and the result for a cap is the first part of
  the result for any larger cap. For every cap, the percent snippets come before the
  time snippets, and the lowercased text of every returned snippet contains a change
  keyword.
\<close>

theorem miner_cap_and_relevance:
  "(1 \<le> max_hits \<longrightarrow>
      int (length (extract_percent_and_time_snippets tx window max_hits)) \<le> max_hits
      \<and> extract_percent_and_time_snippets tx window max_hits
          = take (nat max_hits)
              (family_hits Percent tx window PERCENT_PATTERNS
               @ family_hits Time tx window TIME_PATTERNS)
      \<and> (max_hits \<le> larger \<longrightarrow>
            extract_percent_and_time_snippets tx window max_hits
            = take (nat max_hits) (extract_percent_and_time_snippets tx window larger)))
   \<and> extract_percent_and_time_snippets tx window max_hits
       = filter (\<lambda>h. metric_type h = Percent) (extract_percent_and_time_snippets tx window max_hits)
         @ filter (\<lambda>h. metric_type h = Time) (extract_percent_and_time_snippets tx window max_hits)
   \<and> list_all (\<lambda>h. list_ex (\<lambda>k. contains k (lower (snippet h))) CHANGE_KEYWORDS)
        (extract_percent_and_time_snippets tx window max_hits)"
proof (intro conjI impI)
  assume a: "1 \<le> max_hits"
  show "int (length (extract_percent_and_time_snippets tx window max_hits)) \<le> max_hits"
    using a by (simp add: extract_take)
  show "extract_percent_and_time_snippets tx window max_hits
          = take (nat max_hits)
              (family_hits Percent tx window PERCENT_PATTERNS
               @ family_hits Time tx window TIME_PATTERNS)"
    using a by (rule extract_take)
  assume b: "max_hits \<le> larger"
  then have "1 \<le> larger" using a by simp
  then show "extract_percent_and_time_snippets tx window max_hits
            = take (nat max_hits) (extract_percent_and_time_snippets tx window larger)"
    using a b by (simp add: extract_take min_def)
next
  show "extract_percent_and_time_snippets tx window max_hits
       = filter (\<lambda>h. metric_type h = Percent) (extract_percent_and_time_snippets tx window max_hits)
         @ filter (\<lambda>h. metric_type h = Time) (extract_percent_and_time_snippets tx window max_hits)"
    by (rule extract_partition)
  show "list_all (\<lambda>h. list_ex (\<lambda>k. contains k (lower (snippet h))) CHANGE_KEYWORDS)
        (extract_percent_and_time_snippets tx window max_hits)"
    by (rule extract_relevant)
qed

theorem miner_cap_and_relevance_witness:
  "(1::int) \<le> 2 \<and> (2::int) \<le> 80
   \<and> map metric_value (extract_percent_and_time_snippets ''cut 1% 2% in 3 min'' 90 2)
       = [''1%'', ''2%'']
   \<and> int (length (extract_percent_and_time_snippets ''cut 1% 2% in 3 min'' 90 2)) \<le> 2"
proof -
  have h1: "(1::int) \<le> 2" and h2: "(2::int) \<le> 80" by simp_all
  note t = miner_cap_and_relevance[of 2 "''cut 1% 2% in 3 min''" 90 80]
  from t h1 have len: "int (length (extract_percent_and_time_snippets ''cut 1% 2% in 3 min'' 90 2)) \<le> 2"
    by blast
  from t h1 h2 have "extract_percent_and_time_snippets ''cut 1% 2% in 3 min'' 90 2
      = take (nat 2) (extract_percent_and_time_snippets ''cut 1% 2% in 3 min'' 90 80)"
    by blast
  then have "map metric_value (extract_percent_and_time_snippets ''cut 1% 2% in 3 min'' 90 2)
      = take 2 (map metric_value (extract_percent_and_time_snippets ''cut 1% 2% in 3 min'' 90 80))"
    by (simp add: take_map)
  with cap_example_80 len show ?thesis by simp
qed

text \<open>
  The claim C3 as the specification states it, for every cap, fails at the cap 0: the
  cap is tested only after a match has been visited, so the first qualifying match is
  returned.
\<close>

theorem cap_zero_returns_a_snippet:
  "extract_percent_and_time_snippets ''saved 5%'' 90 0
     = [\<lparr>metric_type = Percent, metric_value = ''5%'', snippet = ''saved 5%''\<rparr>]
   \<and> \<not> int (length (extract_percent_and_time_snippets ''saved 5%'' 90 0)) \<le> 0"
  by code_simp

text \<open>
  C4 (as amended). The sequence the miner returns is an initial part of: the percent
  hits, pattern by pattern in the order of \<^verbatim>\<open>PERCENT_PATTERNS\<close>, then the time hits,
  pattern by pattern in the order of \<^verbatim>\<open>TIME_PATTERNS\<close>; the hits of one pattern are
  taken from its matches in the order of \<^verbatim>\<open>re.finditer\<close>, whose start positions
  increase strictly; and every hit carries the type of its family.
\<close>

theorem miner_order:
  "prefix (extract_percent_and_time_snippets tx window max_hits)
     (family_hits Percent tx window PERCENT_PATTERNS @ family_hits Time tx window TIME_PATTERNS)
   \<and> family_hits ty tx window pats
       = concat (map (\<lambda>p. concat (map (\<lambda>m. visit ty tx window m []) (finditer True p tx))) pats)
   \<and> sorted_wrt (<) (map fst (finditer True p tx))
   \<and> list_all (\<lambda>h. metric_type h = ty) (visit ty tx window m [])"
proof (intro conjI)
  show "prefix (extract_percent_and_time_snippets tx window max_hits)
     (family_hits Percent tx window PERCENT_PATTERNS @ family_hits Time tx window TIME_PATTERNS)"
    by (rule extract_prefix)
  show "family_hits ty tx window pats
       = concat (map (\<lambda>p. concat (map (\<lambda>m. visit ty tx window m []) (finditer True p tx))) pats)"
    by (simp add: family_hits_def pattern_hits_def[abs_def])
  show "sorted_wrt (<) (map fst (finditer True p tx))"
    by (rule finditer_sorted)
  show "list_all (\<lambda>h. metric_type h = ty) (visit ty tx window m [])"
    by (auto simp: list_all_iff dest: visit_hit)
qed

text \<open>
  The claim C4 as the specification states it fails: in
  \<^verbatim>\<open>"saved 5 percent then 10%"\<close> the match of the first percent pattern, at position
  21, is returned before the match of the second percent pattern, at position 6.
\<close>

theorem percent_hits_not_in_source_order:
  "map metric_value (extract_percent_and_time_snippets ''saved 5 percent then 10%'' 90 80)
     = [''10%'', ''5 percent'']
   \<and> map metric_type (extract_percent_and_time_snippets ''saved 5 percent then 10%'' 90 80)
     = [Percent, Percent]
   \<and> finditer True (PERCENT_PATTERNS ! 0) ''saved 5 percent then 10%'' = [(21, 24)]
   \<and> finditer True (PERCENT_PATTERNS ! 1) ''saved 5 percent then 10%'' = [(6, 15)]
   \<and> extract_percent_and_time_snippets ''saved 5 percent then 10%'' 90 80
     \<noteq> in_source_order Percent ''saved 5 percent then 10%'' 90 PERCENT_PATTERNS
       @ in_source_order Time ''saved 5 percent then 10%'' 90 TIME_PATTERNS"
  by code_simp


subsection \<open>The body of an article\<close>

lemma credit_example_container:
  "find_container (article_soup [''Photo via Getty Images'', ''Costs fell.'', '' '', ''Subscribe'', ''We saved 5%.'']) containers
   = Some (Element ''Photo via Getty Images Costs fell.   Subscribe We saved 5%.'' None
       [''Photo via Getty Images'', ''Costs fell.'', '' '', ''Subscribe'', ''We saved 5%.''])"
  by (simp add: article_soup_def containers_def)

lemma credit_example_retained:
  "retained [''Photo via Getty Images'', ''Costs fell.'', '' '', ''Subscribe'', ''We saved 5%.''] []
   = [''Photo via Getty Images'', ''Costs fell.'', ''We saved 5%.'']"
  by code_simp

lemma credit_example_match:
  "re_search False photo_credit (lower ''Photo via Getty Images'') = Some (6, 15)"
  by code_simp

text \<open>
  C5 (as amended). When a content container is matched, at least two paragraphs are
  retained after dropping the empty and the boilerplate ones, and the first retained
  paragraph, lowercased, matches the photo-credit pattern, then the body is the
  remaining retained paragraphs joined by blank lines: the credit line is not part of
  it. In particular a container whose first retained paragraph is
  \<^verbatim>\<open>"Photo via Getty Images"\<close>, followed by real paragraphs, yields a body without it.
  When the matching paragraph is the only one retained, it is the body.
\<close>

theorem photo_credit_dropped:
  assumes "find_container s containers = Some c"
    and "retained (select_p c) [] = t # ts"
    and "re_search False photo_credit (lower t) \<noteq> None"
  shows "(ts \<noteq> [] \<longrightarrow> extract_body_generic s = Some (join blank_line ts))
    \<and> (ts = [] \<longrightarrow> extract_body_generic s = Some t)"
  using assms by (simp add: extract_body_generic_def)

theorem photo_credit_dropped_witness:
  "find_container (article_soup [''Photo via Getty Images'', ''Costs fell.'', '' '', ''Subscribe'', ''We saved 5%.'']) containers
   = Some (Element ''Photo via Getty Images Costs fell.   Subscribe We saved 5%.'' None
       [''Photo via Getty Images'', ''Costs fell.'', '' '', ''Subscribe'', ''We saved 5%.''])
   \<and> re_search False photo_credit (lower ''Photo via Getty Images'') = Some (6, 15)
   \<and> extract_body_generic
       (article_soup [''Photo via Getty Images'', ''Costs fell.'', '' '', ''Subscribe'', ''We saved 5%.''])
     = Some (''Costs fell.'' @ blank_line @ ''We saved 5%.'')"
  using photo_credit_dropped[OF credit_example_container,
      of "''Photo via Getty Images''" "[''Costs fell.'', ''We saved 5%.'']"]
    credit_example_container credit_example_retained credit_example_match
  by simp

text \<open>
  The claim C5 as the specification states it, for every matched container, fails when
  the credit line is the only retained paragraph: the source drops it only
  \<^verbatim>\<open>if len(texts) > 1\<close>, and the body is then the credit line itself.
\<close>

theorem sole_photo_credit_kept:
  "find_container (article_soup [''Photo via Getty Images'']) containers
     = Some (Element ''Photo via Getty Images'' None [''Photo via Getty Images''])
   \<and> retained [''Photo via Getty Images''] [] = [''Photo via Getty Images'']
   \<and> re_search False photo_credit (lower ''Photo via Getty Images'') = Some (6, 15)
   \<and> extract_body_generic (article_soup [''Photo via Getty Images''])
     = Some ''Photo via Getty Images''"
  by code_simp

subsection \<open>The numbers table\<close>

lemma table_loop_concat: "table_loop rs n out = out @ concat (map (rows_of n) rs)"
proof (induction rs arbitrary: out)
  case Nil
  then show ?case by simp
next
  case (Cons r rs)
  show ?case
  proof (cases "truthy (error r)")
    case True
    then show ?thesis using Cons.IH by (simp add: rows_of_def)
  next
    case False
    show ?thesis
    proof (cases "extract_percent_and_time_snippets (combined r) 90 80 = []")
      case True
      with False show ?thesis using Cons.IH by (simp add: rows_of_def py_slice_Nil)
    next
      case nonempty: False
      with False show ?thesis using Cons.IH by (simp add: rows_of_def Let_def)
    qed
  qed
qed

lemma extract_blank: "extract_percent_and_time_snippets blank_line 90 80 = []"
  by code_simp

lemma rows_of_take:
  assumes "0 \<le> n"
  shows "rows_of n r =
    (if truthy (error r) then []
     else map (make_row r)
       (take (nat n)
         (extract_percent_and_time_snippets
            (or_empty (description r) @ blank_line @ or_empty (body r)) 90 80)))"
  using assms by (simp add: rows_of_def py_slice_take combined_def)

lemma ten_cuts_values:
  "map metric_value (extract_percent_and_time_snippets (combined ten_cuts) 90 80)
   = [''1%'', ''2%'', ''3%'', ''4%'', ''5%'', ''6%'', ''7%'', ''8%'', ''9%'', ''10%'']"
  by code_simp

lemma ten_cuts_error: "\<not> truthy (error ten_cuts)"
  by (simp add: ten_cuts_def truthy_def)

lemma error_record_truthy: "truthy (error (error_record ''https://b.example/y'' ''b.example'' ''HTTP 404''))"
  by (simp add: error_record_def truthy_def)

text \<open>
  C6. For a cap \<open>n\<close> that is not negative, \<^verbatim>\<open>build_numbers_table\<close> emits, record after
  record in input order: nothing for a record whose \<^verbatim>\<open>error\<close> is set (a non-empty
  message, which is what the source tests; a record without description and body, as
  every error record of the pipeline is, contributes nothing whatever its
  \<^verbatim>\<open>error\<close>); and for every other record the rows of the first \<open>n\<close> snippets mined,
  with window 90 and cap 80, from its description and its body joined by a blank line,
  in mined order. So an error-free record contributes at most \<open>n\<close> rows, and one with
  10 snippets and \<open>n = 6\<close> exactly 6.
\<close>

theorem build_numbers_table_rows:
  assumes "0 \<le> n"
  shows "build_numbers_table rows n =
      concat (map (\<lambda>r. if truthy (error r) then []
                        else map (make_row r)
                          (take (nat n)
                            (extract_percent_and_time_snippets
                               (or_empty (description r) @ blank_line @ or_empty (body r)) 90 80)))
                  rows)
    \<and> (description r = None \<and> body r = None \<longrightarrow> build_numbers_table [r] n = [])
    \<and> (\<not> truthy (error r) \<longrightarrow> int (length (build_numbers_table [r] n)) \<le> n)
    \<and> (\<not> truthy (error r) \<and> n = 6
         \<and> length (extract_percent_and_time_snippets (combined r) 90 80) = 10
         \<longrightarrow> length (build_numbers_table [r] n) = 6)"
proof (intro conjI)
  have eq: "\<And>rows. build_numbers_table rows n = concat (map (rows_of n) rows)"
    by (simp add: build_numbers_table_def table_loop_concat)
  note ro = rows_of_take[OF assms]
  show "build_numbers_table rows n =
      concat (map (\<lambda>r. if truthy (error r) then []
                        else map (make_row r)
                          (take (nat n)
                            (extract_percent_and_time_snippets
                               (or_empty (description r) @ blank_line @ or_empty (body r)) 90 80)))
                  rows)"
    unfolding eq ro ..
  show "description r = None \<and> body r = None \<longrightarrow> build_numbers_table [r] n = []"
    by (simp add: eq ro or_empty_def extract_blank)
  show "\<not> truthy (error r) \<longrightarrow> int (length (build_numbers_table [r] n)) \<le> n"
    using assms by (auto simp: eq ro min_def)
  show "\<not> truthy (error r) \<and> n = 6
         \<and> length (extract_percent_and_time_snippets (combined r) 90 80) = 10
         \<longrightarrow> length (build_numbers_table [r] n) = 6"
  proof (intro impI, elim conjE)
    assume a: "\<not> truthy (error r)" and n6: "n = 6"
      and len: "length (extract_percent_and_time_snippets (combined r) 90 80) = 10"
    have "length (build_numbers_table [r] n) = min 10 (nat n)"
      using a len by (simp add: eq ro combined_def)
    then show "length (build_numbers_table [r] n) = 6" using n6 by simp
  qed
qed

theorem build_numbers_table_rows_witness:
  "(0::int) \<le> 6
   \<and> length (extract_percent_and_time_snippets (combined ten_cuts) 90 80) = 10
   \<and> map row_value
       (build_numbers_table
          [error_record ''https://b.example/y'' ''b.example'' ''HTTP 404'', ten_cuts] 6)
     = [''1%'', ''2%'', ''3%'', ''4%'', ''5%'', ''6%'']
   \<and> length (build_numbers_table [ten_cuts] 6) = 6"
proof -
  have h: "(0::int) \<le> 6" by simp
  have len: "length (extract_percent_and_time_snippets (combined ten_cuts) 90 80) = 10"
    using arg_cong[OF ten_cuts_values, of length] by simp
  note t = build_numbers_table_rows[OF h,
      of "[error_record ''https://b.example/y'' ''b.example'' ''HTTP 404'', ten_cuts]" ten_cuts]
  from t have "build_numbers_table
          [error_record ''https://b.example/y'' ''b.example'' ''HTTP 404'', ten_cuts] 6
      = map (make_row ten_cuts)
          (take 6 (extract_percent_and_time_snippets (combined ten_cuts) 90 80))"
    using ten_cuts_error error_record_truthy by (simp add: combined_def)
  then have "map row_value (build_numbers_table
          [error_record ''https://b.example/y'' ''b.example'' ''HTTP 404'', ten_cuts] 6)
      = take 6 (map metric_value (extract_percent_and_time_snippets (combined ten_cuts) 90 80))"
    by (simp add: take_map make_row_def o_def)
  then have vals: "map row_value (build_numbers_table
          [error_record ''https://b.example/y'' ''b.example'' ''HTTP 404'', ten_cuts] 6)
      = [''1%'', ''2%'', ''3%'', ''4%'', ''5%'', ''6%'']"
    by (simp add: ten_cuts_values)
  from t ten_cuts_error len have "length (build_numbers_table [ten_cuts] 6) = 6" by blast
  with h len vals show ?thesis by simp
qed

subsection \<open>The published date\<close>

lemma match_str_sound:
  assumes "st' \<in> set (match_str False s st)"
  shows "snd st = s @ snd st'"
  using assms
proof (induction s arbitrary: st)
  case Nil
  then show ?case by simp
next
  case (Cons c cs)
  obtain p r where st: "st = (p, r)" by (cases st)
  show ?case
  proof (cases r)
    case Nil
    with Cons.prems st show ?thesis by simp
  next
    case (Cons x xs)
    with Cons.prems st have cx: "c = x" and mem: "st' \<in> set (match_str False cs (Some x, xs))"
      by (auto simp: char_eq_def split: if_splits)
    from Cons.IH[OF mem] have "xs = cs @ snd st'" by simp
    with cx st Cons show ?thesis by simp
  qed
qed

lemma rep_sound:
  assumes "st' \<in> set (rep P m n st)"
  shows "\<exists>w. snd st = w @ snd st' \<and> m \<le> length w \<and> length w \<le> n \<and> list_all P w"
  using assms
proof (induction P m n st rule: rep.induct)
  case (1 P m st)
  then show ?case by (auto split: if_splits)
next
  case (2 P m n p)
  then show ?case by (auto split: if_splits)
next
  case (3 P m n p x xs)
  from "3.prems" consider
    (more) "P x" and "st' \<in> set (rep P (m - 1) n (Some x, xs))"
    | (stop) "m = 0" and "st' = (p, x # xs)"
    by (auto split: if_splits)
  then show ?case
  proof cases
    case more
    from "3.IH"[OF more] obtain w where
      w: "xs = w @ snd st'" "m - 1 \<le> length w" "length w \<le> n" "list_all P w"
      by auto
    have "snd (p, x # xs) = (x # w) @ snd st'" using w(1) by simp
    moreover have "m \<le> length (x # w)" using w(2) by simp
    moreover have "length (x # w) \<le> Suc n" using w(3) by simp
    moreover have "list_all P (x # w)" using w(4) more(1) by simp
    ultimately show ?thesis by blast
  next
    case stop
    then have "snd (p, x # xs) = [] @ snd st'" by simp
    with stop show ?thesis by force
  qed
qed

lemma rep_many_sound:
  assumes "st' \<in> set (rep_many P m st)"
  shows "\<exists>w. snd st = w @ snd st' \<and> m \<le> length w \<and> list_all P w"
  using assms
proof (induction P m st rule: rep_many.induct)
  case (1 P m p)
  then show ?case by (auto split: if_splits)
next
  case (2 P m p x xs)
  from "2.prems" consider
    (more) "P x" and "st' \<in> set (rep_many P (m - 1) (Some x, xs))"
    | (stop) "m = 0" and "st' = (p, x # xs)"
    by (auto split: if_splits)
  then show ?case
  proof cases
    case more
    from "2.IH"[OF more] obtain w where
      w: "xs = w @ snd st'" "m - 1 \<le> length w" "list_all P w"
      by auto
    have "snd (p, x # xs) = (x # w) @ snd st'" using w(1) by simp
    moreover have "m \<le> length (x # w)" using w(2) by simp
    moreover have "list_all P (x # w)" using w(3) more(1) by simp
    ultimately show ?thesis by blast
  next
    case stop
    then have "snd (p, x # xs) = [] @ snd st'" by simp
    with stop show ?thesis by force
  qed
qed

lemma digit_range: "in_ranges [(CHR ''0'', CHR ''9'')] x = is_digit x"
  by (simp add: in_ranges_def is_digit_def code_def Let_def)

lemma atom_ok_Space: "atom_ok ic Space = is_space"
  by (rule ext) simp

lemma atom_ok_Cls: "atom_ok ic (Cls rs) = in_ranges rs"
  by (rule ext) simp

lemma date_prefix_sound:
  assumes "st1 \<in> set (bt False date_prefix st)"
  shows "\<exists>ws. snd st = ''Published:'' @ ws @ snd st1 \<and> list_all is_space ws"
proof -
  from assms obtain st0 where
    a: "st0 \<in> set (match_str False ''Published:'' st)" and b: "st1 \<in> set (rep_many is_space 0 st0)"
    by (auto simp: date_prefix_def atom_ok_Space simp del: match_str.simps rep_many.simps)
  from match_str_sound[OF a] have 1: "snd st = ''Published:'' @ snd st0" .
  from rep_many_sound[OF b] obtain ws where 2: "snd st0 = ws @ snd st1" "list_all is_space ws"
    by auto
  from 1 2 show ?thesis by auto
qed

lemma date_group_sound:
  assumes "st5 \<in> set (bt False date_group st)"
  shows "\<exists>day ws1 mon ws2 yr. snd st = day @ ws1 @ mon @ ws2 @ yr @ snd st5
     \<and> (length day = 1 \<or> length day = 2) \<and> list_all is_digit day
     \<and> ws1 \<noteq> [] \<and> list_all is_space ws1
     \<and> length mon = 3 \<and> list_all (in_ranges [(CHR ''A'', CHR ''Z''), (CHR ''a'', CHR ''z'')]) mon
     \<and> ws2 \<noteq> [] \<and> list_all is_space ws2
     \<and> length yr = 4 \<and> list_all is_digit yr"
proof -
  let ?D = "in_ranges [(CHR ''0'', CHR ''9'')]"
  let ?L = "in_ranges [(CHR ''A'', CHR ''Z''), (CHR ''a'', CHR ''z'')]"
  from assms obtain st1 st2 st3 st4 where
    a: "st1 \<in> set (rep ?D 1 2 st)"
    and b: "st2 \<in> set (rep_many is_space 1 st1)"
    and c: "st3 \<in> set (rep ?L 3 3 st2)"
    and d: "st4 \<in> set (rep_many is_space 1 st3)"
    and e: "st5 \<in> set (rep ?D 4 4 st4)"
    unfolding date_group_def
    by (auto simp: atom_ok_Space atom_ok_Cls simp del: rep.simps rep_many.simps)
  from rep_sound[OF a] obtain day where
    1: "snd st = day @ snd st1" "1 \<le> length day" "length day \<le> 2" "list_all ?D day" by auto
  from rep_many_sound[OF b] obtain ws1 where
    2: "snd st1 = ws1 @ snd st2" "1 \<le> length ws1" "list_all is_space ws1" by auto
  from rep_sound[OF c] obtain mon where
    3: "snd st2 = mon @ snd st3" "3 \<le> length mon" "length mon \<le> 3" "list_all ?L mon" by auto
  from rep_many_sound[OF d] obtain ws2 where
    4: "snd st3 = ws2 @ snd st4" "1 \<le> length ws2" "list_all is_space ws2" by auto
  from rep_sound[OF e] obtain yr where
    5: "snd st4 = yr @ snd st5" "4 \<le> length yr" "length yr \<le> 4" "list_all ?D yr" by auto
  have "snd st = day @ ws1 @ mon @ ws2 @ yr @ snd st5" using 1(1) 2(1) 3(1) 4(1) 5(1) by simp
  moreover have "length day = 1 \<or> length day = 2" using 1(2,3) by arith
  moreover have "list_all is_digit day" "list_all is_digit yr"
    using 1(4) 5(4) by (simp_all add: digit_range[abs_def])
  moreover have "ws1 \<noteq> []" "ws2 \<noteq> []" using 2(2) 4(2) by auto
  moreover have "length mon = 3" "length yr = 4" using 3(2,3) 5(2,3) by simp_all
  ultimately have "snd st = day @ ws1 @ mon @ ws2 @ yr @ snd st5
     \<and> (length day = 1 \<or> length day = 2) \<and> list_all is_digit day
     \<and> ws1 \<noteq> [] \<and> list_all is_space ws1
     \<and> length mon = 3 \<and> list_all ?L mon
     \<and> ws2 \<noteq> [] \<and> list_all is_space ws2
     \<and> length yr = 4 \<and> list_all is_digit yr"
    using 2(3) 3(4) 4(3) by simp
  then show ?thesis
    by (intro exI[of _ day] exI[of _ ws1] exI[of _ mon] exI[of _ ws2] exI[of _ yr])
qed

lemma first_group_sound:
  assumes "first_group ic g sts = Some d"
  shows "\<exists>st st' rest. st \<in> set sts \<and> bt ic g st = st' # rest
     \<and> d = take (length (snd st) - length (snd st')) (snd st)"
  using assms
proof (induction sts)
  case Nil
  then show ?case by simp
next
  case (Cons st sts)
  show ?case
  proof (cases "bt ic g st")
    case Nil
    with Cons.prems have "first_group ic g sts = Some d" by simp
    from Cons.IH[OF this] obtain a a' rest where
      "a \<in> set sts" "bt ic g a = a' # rest"
      "d = take (length (snd a) - length (snd a')) (snd a)" by blast
    then have "a \<in> set (st # sts) \<and> bt ic g a = a' # rest
       \<and> d = take (length (snd a) - length (snd a')) (snd a)" by simp
    then show ?thesis by (intro exI[of _ a] exI[of _ a'] exI[of _ rest])
  next
    case (Cons st' rest)
    with Cons.prems have "d = take (length (snd st) - length (snd st')) (snd st)" by simp
    with Cons have "st \<in> set (st # sts) \<and> bt ic g st = st' # rest
       \<and> d = take (length (snd st) - length (snd st')) (snd st)" by simp
    then show ?thesis by (intro exI[of _ st] exI[of _ st'] exI[of _ rest])
  qed
qed

lemma search_group_sound:
  assumes "search_group ic pre g p xs = Some d"
  shows "\<exists>before rest q. xs = before @ rest \<and> first_group ic g (bt ic pre (q, rest)) = Some d"
  using assms
proof (induction xs arbitrary: p)
  case Nil
  then have "[] = [] @ [] \<and> first_group ic g (bt ic pre (p, [])) = Some d" by simp
  then show ?case by (intro exI[of _ "[]"] exI[of _ p])
next
  case (Cons x xs)
  show ?case
  proof (cases "first_group ic g (bt ic pre (p, x # xs))")
    case None
    with Cons.prems have "search_group ic pre g (Some x) xs = Some d" by simp
    from Cons.IH[OF this] obtain before rest q where
      "xs = before @ rest" "first_group ic g (bt ic pre (q, rest)) = Some d"
      by (elim exE conjE)
    then have "x # xs = (x # before) @ rest \<and> first_group ic g (bt ic pre (q, rest)) = Some d"
      by simp
    then show ?thesis by (intro exI[of _ "x # before"] exI[of _ rest] exI[of _ q])
  next
    case (Some d')
    with Cons.prems have "x # xs = [] @ (x # xs) \<and> first_group ic g (bt ic pre (p, x # xs)) = Some d"
      by simp
    then show ?thesis by (intro exI[of _ "[]"] exI[of _ "x # xs"] exI[of _ p])
  qed
qed

lemma date_search_shape:
  assumes "search_group False date_prefix date_group None tx = Some g"
  shows "\<exists>before ws day ws1 mon ws2 yr after.
       tx = before @ ''Published:'' @ ws @ day @ ws1 @ mon @ ws2 @ yr @ after
     \<and> g = day @ ws1 @ mon @ ws2 @ yr
     \<and> list_all is_space ws
     \<and> (length day = 1 \<or> length day = 2) \<and> list_all is_digit day
     \<and> ws1 \<noteq> [] \<and> list_all is_space ws1
     \<and> length mon = 3 \<and> list_all (in_ranges [(CHR ''A'', CHR ''Z''), (CHR ''a'', CHR ''z'')]) mon
     \<and> ws2 \<noteq> [] \<and> list_all is_space ws2
     \<and> length yr = 4 \<and> list_all is_digit yr"
proof -
  from search_group_sound[OF assms] obtain before rest q where
    sp: "tx = before @ rest"
    and fg: "first_group False date_group (bt False date_prefix (q, rest)) = Some g"
    by blast
  from first_group_sound[OF fg] obtain st st' sts where
    st: "st \<in> set (bt False date_prefix (q, rest))"
    and hd: "bt False date_group st = st' # sts"
    and g: "g = take (length (snd st) - length (snd st')) (snd st)"
    by blast
  from date_prefix_sound[OF st] obtain ws where
    ws: "rest = ''Published:'' @ ws @ snd st" "list_all is_space ws" by auto
  from hd have "st' \<in> set (bt False date_group st)" by simp
  from date_group_sound[OF this] have "\<exists>day ws1 mon ws2 yr.
       snd st = day @ ws1 @ mon @ ws2 @ yr @ snd st'
     \<and> (length day = 1 \<or> length day = 2) \<and> list_all is_digit day
     \<and> ws1 \<noteq> [] \<and> list_all is_space ws1
     \<and> length mon = 3 \<and> list_all (in_ranges [(CHR ''A'', CHR ''Z''), (CHR ''a'', CHR ''z'')]) mon
     \<and> ws2 \<noteq> [] \<and> list_all is_space ws2
     \<and> length yr = 4 \<and> list_all is_digit yr" .
  then obtain day ws1 mon ws2 yr where
    dg: "snd st = day @ ws1 @ mon @ ws2 @ yr @ snd st'"
    and props: "(length day = 1 \<or> length day = 2) \<and> list_all is_digit day
     \<and> ws1 \<noteq> [] \<and> list_all is_space ws1
     \<and> length mon = 3 \<and> list_all (in_ranges [(CHR ''A'', CHR ''Z''), (CHR ''a'', CHR ''z'')]) mon
     \<and> ws2 \<noteq> [] \<and> list_all is_space ws2
     \<and> length yr = 4 \<and> list_all is_digit yr"
    by (elim exE conjE) (rule that, assumption, (intro conjI; assumption))
  have "length (snd st) - length (snd st') = length (day @ ws1 @ mon @ ws2 @ yr)"
    unfolding dg by simp
  then have "g = take (length (day @ ws1 @ mon @ ws2 @ yr)) ((day @ ws1 @ mon @ ws2 @ yr) @ snd st')"
    using g dg by simp
  then have g': "g = day @ ws1 @ mon @ ws2 @ yr"
    by simp
  have e1: "tx = before @ ''Published:'' @ ws @ day @ ws1 @ mon @ ws2 @ yr @ snd st'"
    using sp ws(1) dg by simp
  have body: "tx = before @ ''Published:'' @ ws @ day @ ws1 @ mon @ ws2 @ yr @ snd st'
     \<and> g = day @ ws1 @ mon @ ws2 @ yr
     \<and> list_all is_space ws
     \<and> (length day = 1 \<or> length day = 2) \<and> list_all is_digit day
     \<and> ws1 \<noteq> [] \<and> list_all is_space ws1
     \<and> length mon = 3 \<and> list_all (in_ranges [(CHR ''A'', CHR ''Z''), (CHR ''a'', CHR ''z'')]) mon
     \<and> ws2 \<noteq> [] \<and> list_all is_space ws2
     \<and> length yr = 4 \<and> list_all is_digit yr"
    by (rule conjI[OF e1 conjI[OF g' conjI[OF ws(2) props]]])
  show ?thesis
    by (rule exI[of _ before], rule exI[of _ ws], rule exI[of _ day], rule exI[of _ ws1],
        rule exI[of _ mon], rule exI[of _ ws2], rule exI[of _ yr], rule exI[of _ "snd st'"],
        rule body)
qed

lemma parse_published:
  assumes "BeautifulSoup E html = Inr s" and "parse_page_generic E html u = Inr r"
  shows "published_date r = resolve_published s (snd (parse_json_ld_for_article s))"
  using assms by (auto simp: parse_page_generic_def Let_def split: sum.splits)

lemma resolve_fallback:
  assumes "published_cascade s d = None"
  shows "resolve_published s d =
    (case search_group False date_prefix date_group None (page_text s) of
       Some g \<Rightarrow> clean (Some g) | None \<Rightarrow> None)"
  using assms by (simp add: resolve_published_def truthy_def Let_def split: option.splits)

lemma short_month: "search_group False date_prefix date_group None ''Published: 12 Jan 2024'' = Some ''12 Jan 2024''"
  by code_simp

lemma short_month_clean: "clean (Some ''12 Jan 2024'') = Some ''12 Jan 2024''"
  by code_simp

lemma full_month: "search_group False date_prefix date_group None ''Published: 12 January 2024'' = None"
  by code_simp

lemma full_month_page:
  "parse_page_generic (page_env (article_soup [''Published: 12 January 2024''])) ''<html>''
     ''https://a.example/x''
   = Inr \<lparr>url = ''https://a.example/x'', site = ''a.example'', title = None, author = None,
          published_date = None, description = None,
          body = Some ''Published: 12 January 2024'', error = None\<rparr>"
  by code_simp

lemma short_month_page:
  "parse_page_generic (page_env (article_soup [''Published: 12 Jan 2024''])) ''<html>''
     ''https://a.example/x''
   = Inr \<lparr>url = ''https://a.example/x'', site = ''a.example'', title = None, author = None,
          published_date = Some ''12 Jan 2024'', description = None,
          body = Some ''Published: 12 Jan 2024'', error = None\<rparr>"
  by code_simp

lemma example_cascade:
  "published_cascade (article_soup ps) (snd (parse_json_ld_for_article (article_soup ps))) = None"
  by (simp add: published_cascade_def parse_json_ld_for_article_def article_soup_def
      meta_content_def por_def truthy_def)

lemma example_parser: "BeautifulSoup (page_env s) html = Inr s"
  by (simp add: page_env_def)

lemma example_page_text: "page_text (article_soup [t]) = t"
  by (simp add: article_soup_def)

text \<open>
  C10. When no earlier step of the cascade produced a published date, the date comes
  from the regular expression over the page text alone. Then a page text
  \<^verbatim>\<open>"Published: 12 Jan 2024"\<close> gives \<^verbatim>\<open>"12 Jan 2024"\<close>; a page text
  \<^verbatim>\<open>"Published: 12 January 2024"\<close> gives no date; and whenever a date results, the page
  text contains \<^verbatim>\<open>"Published:"\<close>, optional whitespace, one or two digits, whitespace,
  exactly three ASCII letters, whitespace and four digits, and the date is that part
  from the first digit on, cleaned.
\<close>

theorem published_regex_fallback:
  assumes "BeautifulSoup E html = Inr s"
    and "parse_page_generic E html u = Inr r"
    and "published_cascade s (snd (parse_json_ld_for_article s)) = None"
  shows "(page_text s = ''Published: 12 Jan 2024'' \<longrightarrow> published_date r = Some ''12 Jan 2024'')
    \<and> (page_text s = ''Published: 12 January 2024'' \<longrightarrow> published_date r = None)
    \<and> (published_date r \<noteq> None \<longrightarrow>
         (\<exists>before ws day ws1 mon ws2 yr after.
            page_text s = before @ ''Published:'' @ ws @ day @ ws1 @ mon @ ws2 @ yr @ after
          \<and> published_date r = clean (Some (day @ ws1 @ mon @ ws2 @ yr))
          \<and> list_all is_space ws
          \<and> (length day = 1 \<or> length day = 2) \<and> list_all is_digit day
          \<and> ws1 \<noteq> [] \<and> list_all is_space ws1
          \<and> length mon = 3
          \<and> list_all (in_ranges [(CHR ''A'', CHR ''Z''), (CHR ''a'', CHR ''z'')]) mon
          \<and> ws2 \<noteq> [] \<and> list_all is_space ws2
          \<and> length yr = 4 \<and> list_all is_digit yr))"
proof -
  have pd: "published_date r =
    (case search_group False date_prefix date_group None (page_text s) of
       Some g \<Rightarrow> clean (Some g) | None \<Rightarrow> None)"
    using parse_published[OF assms(1,2)] resolve_fallback[OF assms(3)] by simp
  have a: "page_text s = ''Published: 12 Jan 2024'' \<longrightarrow> published_date r = Some ''12 Jan 2024''"
    using pd short_month short_month_clean by simp
  have b: "page_text s = ''Published: 12 January 2024'' \<longrightarrow> published_date r = None"
    using pd full_month by simp
  have c: "published_date r \<noteq> None \<longrightarrow>
         (\<exists>before ws day ws1 mon ws2 yr after.
            page_text s = before @ ''Published:'' @ ws @ day @ ws1 @ mon @ ws2 @ yr @ after
          \<and> published_date r = clean (Some (day @ ws1 @ mon @ ws2 @ yr))
          \<and> list_all is_space ws
          \<and> (length day = 1 \<or> length day = 2) \<and> list_all is_digit day
          \<and> ws1 \<noteq> [] \<and> list_all is_space ws1
          \<and> length mon = 3
          \<and> list_all (in_ranges [(CHR ''A'', CHR ''Z''), (CHR ''a'', CHR ''z'')]) mon
          \<and> ws2 \<noteq> [] \<and> list_all is_space ws2
          \<and> length yr = 4 \<and> list_all is_digit yr)"
  proof
    assume ne: "published_date r \<noteq> None"
    then obtain g where g: "search_group False date_prefix date_group None (page_text s) = Some g"
      using pd by (cases "search_group False date_prefix date_group None (page_text s)") simp_all
    from date_search_shape[OF g] obtain before ws day ws1 mon ws2 yr after where
      sh: "page_text s = before @ ''Published:'' @ ws @ day @ ws1 @ mon @ ws2 @ yr @ after
        \<and> g = day @ ws1 @ mon @ ws2 @ yr
        \<and> list_all is_space ws
        \<and> (length day = 1 \<or> length day = 2) \<and> list_all is_digit day
        \<and> ws1 \<noteq> [] \<and> list_all is_space ws1
        \<and> length mon = 3
        \<and> list_all (in_ranges [(CHR ''A'', CHR ''Z''), (CHR ''a'', CHR ''z'')]) mon
        \<and> ws2 \<noteq> [] \<and> list_all is_space ws2
        \<and> length yr = 4 \<and> list_all is_digit yr"
      by (elim exE)
    from sh have geq: "g = day @ ws1 @ mon @ ws2 @ yr" by (elim conjE)
    have pdg: "published_date r = clean (Some (day @ ws1 @ mon @ ws2 @ yr))"
      using pd g geq by simp
    from sh have rest: "list_all is_space ws
        \<and> (length day = 1 \<or> length day = 2) \<and> list_all is_digit day
        \<and> ws1 \<noteq> [] \<and> list_all is_space ws1
        \<and> length mon = 3
        \<and> list_all (in_ranges [(CHR ''A'', CHR ''Z''), (CHR ''a'', CHR ''z'')]) mon
        \<and> ws2 \<noteq> [] \<and> list_all is_space ws2
        \<and> length yr = 4 \<and> list_all is_digit yr"
      by (elim conjE) (intro conjI; assumption)
    from sh have pt: "page_text s = before @ ''Published:'' @ ws @ day @ ws1 @ mon @ ws2 @ yr @ after"
      by (elim conjE)
    have body: "page_text s = before @ ''Published:'' @ ws @ day @ ws1 @ mon @ ws2 @ yr @ after
          \<and> published_date r = clean (Some (day @ ws1 @ mon @ ws2 @ yr))
          \<and> list_all is_space ws
          \<and> (length day = 1 \<or> length day = 2) \<and> list_all is_digit day
          \<and> ws1 \<noteq> [] \<and> list_all is_space ws1
          \<and> length mon = 3
          \<and> list_all (in_ranges [(CHR ''A'', CHR ''Z''), (CHR ''a'', CHR ''z'')]) mon
          \<and> ws2 \<noteq> [] \<and> list_all is_space ws2
          \<and> length yr = 4 \<and> list_all is_digit yr"
      by (rule conjI[OF pt conjI[OF pdg rest]])
    show "\<exists>before ws day ws1 mon ws2 yr after.
            page_text s = before @ ''Published:'' @ ws @ day @ ws1 @ mon @ ws2 @ yr @ after
          \<and> published_date r = clean (Some (day @ ws1 @ mon @ ws2 @ yr))
          \<and> list_all is_space ws
          \<and> (length day = 1 \<or> length day = 2) \<and> list_all is_digit day
          \<and> ws1 \<noteq> [] \<and> list_all is_space ws1
          \<and> length mon = 3
          \<and> list_all (in_ranges [(CHR ''A'', CHR ''Z''), (CHR ''a'', CHR ''z'')]) mon
          \<and> ws2 \<noteq> [] \<and> list_all is_space ws2
          \<and> length yr = 4 \<and> list_all is_digit yr"
      by (rule exI[of _ before], rule exI[of _ ws], rule exI[of _ day], rule exI[of _ ws1],
          rule exI[of _ mon], rule exI[of _ ws2], rule exI[of _ yr], rule exI[of _ after],
          rule body)
  qed
  from a b c show ?thesis by (intro conjI)
qed

theorem published_regex_fallback_witness:
  "page_text (article_soup [''Published: 12 January 2024'']) = ''Published: 12 January 2024''
   \<and> (\<exists>r. parse_page_generic (page_env (article_soup [''Published: 12 January 2024'']))
             ''<html>'' ''https://a.example/x'' = Inr r
          \<and> published_date r = None)
   \<and> (\<exists>r. parse_page_generic (page_env (article_soup [''Published: 12 Jan 2024'']))
             ''<html>'' ''https://a.example/x'' = Inr r
          \<and> published_date r = Some ''12 Jan 2024'')"
proof -
  from published_regex_fallback[OF example_parser full_month_page example_cascade]
  have 1: "published_date \<lparr>url = ''https://a.example/x'', site = ''a.example'', title = None,
          author = None, published_date = None, description = None,
          body = Some ''Published: 12 January 2024'', error = None\<rparr> = None"
    by simp
  from published_regex_fallback[OF example_parser short_month_page example_cascade]
  have 2: "published_date \<lparr>url = ''https://a.example/x'', site = ''a.example'', title = None,
          author = None, published_date = Some ''12 Jan 2024'', description = None,
          body = Some ''Published: 12 Jan 2024'', error = None\<rparr> = Some ''12 Jan 2024''"
    by simp
  from 1 2 full_month_page short_month_page example_page_text show ?thesis by simp
qed


end
